theory Spec2Isabelle
  imports Main "HOL-Library.Word"
begin

section \<open>JavaScript values used by cookie.js\<close>

text \<open>
  A JavaScript string is a sequence of 16-bit code units. \<open>js\<close> writes a string literal
  of the source (ASCII only) as such a sequence.
\<close>

type_synonym cu = "16 word"
type_synonym jsstring = "cu list"

definition js :: "string \<Rightarrow> jsstring" where
  "js s = map of_char s"

text \<open>
  The values a caller passes where the source expects a string: \<open>undefined\<close> (an absent
  argument), \<open>null\<close>, or a string. Numbers and objects as cookie values are outside
  the model.
\<close>

datatype jsval = Undefined | Null | Str jsstring

text \<open>
  What a call can throw: the \<open>TypeError\<close> of a property read or a call on
  \<open>undefined\<close>/\<open>null\<close>, the \<open>URIError\<close> of \<open>encodeURIComponent\<close> and
  \<open>decodeURIComponent\<close>, and the string thrown by line 426 of cookie.js.
\<close>

datatype error = TypeError | URIError | Thrown jsstring

text \<open>\<open>x(...)\<close> applied to the value of a call that may have thrown.\<close>

definition cons_ok :: "cu \<Rightarrow> error + jsstring \<Rightarrow> error + jsstring" where
  "cons_ok c r = (case r of Inl e \<Rightarrow> Inl e | Inr s \<Rightarrow> Inr (c # s))"

definition app_ok :: "jsstring \<Rightarrow> error + jsstring \<Rightarrow> error + jsstring" where
  "app_ok p r = (case r of Inl e \<Rightarrow> Inl e | Inr s \<Rightarrow> Inr (p @ s))"

section \<open>Prefix of a scrambled cookie (cookie.js, lines 19-76)\<close>

text \<open>
  The \<open>.\<close> of a JavaScript regular expression (no \<open>s\<close> flag) matches every code unit
  but the four line terminators LF, CR, U+2028 and U+2029.
\<close>

definition isLineTerminator :: "cu \<Rightarrow> bool" where
  "isLineTerminator c \<longleftrightarrow> c = 0x0A \<or> c = 0x0D \<or> c = 0x2028 \<or> c = 0x2029"

text \<open>
  The tail \<open>.*?\]\<close> of the match of \<open>/^\[(.+?)\]/\<close>, after the first \<open>.\<close> is taken: the
  lazy quantifier tries \<open>\]\<close> first and takes one more \<open>.\<close> only when that fails.
  The result is the rest of the capture and the text after the closing bracket.
\<close>

fun lazyDots :: "jsstring \<Rightarrow> (jsstring \<times> jsstring) option" where
  "lazyDots [] = None"
| "lazyDots (c # cs) =
     (if c = 0x5D then Some ([], cs)
      else if isLineTerminator c then None
      else (case lazyDots cs of None \<Rightarrow> None | Some (t, r) \<Rightarrow> Some (c # t, r)))"

text \<open>
  \<open>s.match(/^\[(.+?)\]/)\<close>: the capture and the text after the match, or \<open>None\<close> for
  \<open>null\<close>. The expression is anchored, so the only start position is 0; \<open>.+?\<close> takes
  at least one code unit, whatever it is (a \<open>]\<close> too).
\<close>

fun prefixMatch :: "jsstring \<Rightarrow> (jsstring \<times> jsstring) option" where
  "prefixMatch (b # c # cs) =
     (if b = 0x5B \<and> \<not> isLineTerminator c
      then (case lazyDots cs of None \<Rightarrow> None | Some (t, r) \<Rightarrow> Some (c # t, r))
      else None)"
| "prefixMatch _ = None"

definition scramblePrefixGet :: "jsstring \<Rightarrow> jsstring" where
  "scramblePrefixGet s = (case prefixMatch s of Some (t, r) \<Rightarrow> t | None \<Rightarrow> [])"

definition scramblePrefixAdd :: "jsstring \<Rightarrow> jsstring \<Rightarrow> jsstring" where
  "scramblePrefixAdd prefix v = [0x5B] @ prefix @ [0x5D] @ v"

definition scramblePrefixRemove :: "jsstring \<Rightarrow> jsstring" where
  "scramblePrefixRemove s = (case prefixMatch s of Some (t, r) \<Rightarrow> r | None \<Rightarrow> s)"

section \<open>Rot13 and Rot5 (cookie.js, lines 86-120 and 163-174)\<close>

text \<open>
  \<open>/[a-z]/ig\<close> has no \<open>u\<close> flag, so its case folding never maps a code unit above 127
  to an ASCII one: it matches exactly the 52 ASCII letters.
\<close>

definition isAsciiLetter :: "cu \<Rightarrow> bool" where
  "isAsciiLetter c \<longleftrightarrow> (0x41 \<le> c \<and> c \<le> 0x5A) \<or> (0x61 \<le> c \<and> c \<le> 0x7A)"

text \<open>The replacement function of line 88: \<open>n > 109 || n < 97 && n > 77 ? n - 13 : n + 13\<close>.\<close>

definition rot13replace :: "cu \<Rightarrow> cu" where
  "rot13replace n = (if 109 < n \<or> (n < 97 \<and> 77 < n) then n - 13 else n + 13)"

text \<open>\<open>str || ''\<close>: \<open>undefined\<close>, \<open>null\<close> and the empty string give the empty string.\<close>

definition orEmpty :: "jsval \<Rightarrow> jsstring" where
  "orEmpty v = (case v of Str s \<Rightarrow> s | _ \<Rightarrow> [])"

definition rot13 :: "jsval \<Rightarrow> jsstring" where
  "rot13 str = map (\<lambda>a. if isAsciiLetter a then rot13replace a else a) (orEmpty str)"

definition isDigit :: "cu \<Rightarrow> bool" where
  "isDigit c \<longleftrightarrow> 0x30 \<le> c \<and> c \<le> 0x39"

text \<open>The substitution table, keyed by the digit's character.\<close>

definition rot5matrix :: "(cu \<times> cu) list" where
  "rot5matrix =
     [(0x30, 0x35), (0x31, 0x36), (0x32, 0x37), (0x33, 0x38), (0x34, 0x39),
      (0x35, 0x30), (0x36, 0x31), (0x37, 0x32), (0x38, 0x33), (0x39, 0x34)]"

definition rot5replace :: "cu \<Rightarrow> cu" where
  "rot5replace a = (case map_of rot5matrix a of Some d \<Rightarrow> d | None \<Rightarrow> a)"

text \<open>
  \<open>str.replace(...)\<close> with no guard: reading \<open>replace\<close> of \<open>undefined\<close> or \<open>null\<close>
  throws a TypeError.
\<close>

definition rot5 :: "jsval \<Rightarrow> error + jsstring" where
  "rot5 str =
     (case str of
        Str s \<Rightarrow> Inr (map (\<lambda>a. if isDigit a then rot5replace a else a) s)
      | _ \<Rightarrow> Inl TypeError)"

section \<open>encodeURIComponent and decodeURIComponent (ECMA-262, Encode and Decode)\<close>

text \<open>
  The two built-in functions that \<open>encodeValue\<close> and \<open>decodeValue\<close> call, after the
  abstract operations \<open>Encode\<close> and \<open>Decode\<close> of the language standard. Octets and code
  points are natural numbers.
\<close>

text \<open>The set \<open>uriUnreserved\<close>: letters, digits and \<open>- _ . ! ~ * ' ( )\<close>.\<close>

definition uriUnreserved :: "cu \<Rightarrow> bool" where
  "uriUnreserved c \<longleftrightarrow>
     isAsciiLetter c \<or> isDigit c \<or>
     c \<in> set [0x2D, 0x5F, 0x2E, 0x21, 0x7E, 0x2A, 0x27, 0x28, 0x29]"

definition isLeadSurrogate :: "cu \<Rightarrow> bool" where
  "isLeadSurrogate c \<longleftrightarrow> 0xD800 \<le> c \<and> c \<le> 0xDBFF"

definition isTrailSurrogate :: "cu \<Rightarrow> bool" where
  "isTrailSurrogate c \<longleftrightarrow> 0xDC00 \<le> c \<and> c \<le> 0xDFFF"

definition surrogatePairToCodePoint :: "cu \<Rightarrow> cu \<Rightarrow> nat" where
  "surrogatePairToCodePoint lead trail =
     (unat lead - 0xD800) * 0x400 + (unat trail - 0xDC00) + 0x10000"

text \<open>The digit of a value below 16; \<open>percent\<close> applies it to the two halves of an octet.\<close>

definition hexDigit :: "nat \<Rightarrow> cu" where
  "hexDigit n = js ''0123456789ABCDEF'' ! n"

text \<open>An octet as \<open>%XX\<close>, two uppercase hexadecimal digits.\<close>

definition percent :: "nat \<Rightarrow> jsstring" where
  "percent b = [0x25, hexDigit (b div 16), hexDigit (b mod 16)]"

text \<open>The UTF-8 transformation of a code point.\<close>

definition utf8 :: "nat \<Rightarrow> nat list" where
  "utf8 cp =
     (if cp < 0x80 then [cp]
      else if cp < 0x800 then [0xC0 + cp div 64, 0x80 + cp mod 64]
      else if cp < 0x10000 then
        [0xE0 + cp div 4096, 0x80 + cp div 64 mod 64, 0x80 + cp mod 64]
      else
        [0xF0 + cp div 262144, 0x80 + cp div 4096 mod 64, 0x80 + cp div 64 mod 64,
         0x80 + cp mod 64])"

definition escapeCodePoint :: "nat \<Rightarrow> jsstring" where
  "escapeCodePoint cp = concat (map percent (utf8 cp))"

text \<open>
  \<open>Encode\<close> with the unreserved set of \<open>encodeURIComponent\<close>. A surrogate that is not
  the first half of a pair followed by its second half is unpaired: URIError.
\<close>

fun Encode :: "jsstring \<Rightarrow> error + jsstring" where
  "Encode [] = Inr []"
| "Encode (c # cs) =
     (if uriUnreserved c then cons_ok c (Encode cs)
      else if isLeadSurrogate c then
        (case cs of
           [] \<Rightarrow> Inl URIError
         | d # ds \<Rightarrow>
             if isTrailSurrogate d
             then app_ok (escapeCodePoint (surrogatePairToCodePoint c d)) (Encode ds)
             else Inl URIError)
      else if isTrailSurrogate c then Inl URIError
      else app_ok (escapeCodePoint (unat c)) (Encode cs))"

definition encodeURIComponent :: "jsstring \<Rightarrow> error + jsstring" where
  "encodeURIComponent s = Encode s"

definition parseHexDigit :: "cu \<Rightarrow> nat option" where
  "parseHexDigit c =
     (if 0x30 \<le> c \<and> c \<le> 0x39 then Some (unat c - 0x30)
      else if 0x41 \<le> c \<and> c \<le> 0x46 then Some (unat c - 0x41 + 10)
      else if 0x61 \<le> c \<and> c \<le> 0x66 then Some (unat c - 0x61 + 10)
      else None)"

definition parseHexOctet :: "cu \<Rightarrow> cu \<Rightarrow> nat option" where
  "parseHexOctet h l =
     (case parseHexDigit h of
        None \<Rightarrow> None
      | Some a \<Rightarrow> (case parseHexDigit l of None \<Rightarrow> None | Some b \<Rightarrow> Some (16 * a + b)))"

text \<open>The number of leading 1 bits of an octet.\<close>

definition leadingOnes :: "nat \<Rightarrow> nat" where
  "leadingOnes b =
     (if b < 0x80 then 0 else if b < 0xC0 then 1 else if b < 0xE0 then 2
      else if b < 0xF0 then 3 else if b < 0xF8 then 4 else if b < 0xFC then 5
      else if b < 0xFE then 6 else if b < 0xFF then 7 else 8)"

text \<open>The \<open>j\<close> escapes \<open>%XX\<close> that must follow the first octet of a sequence.\<close>

fun continuationOctets :: "nat \<Rightarrow> jsstring \<Rightarrow> nat list option" where
  "continuationOctets 0 cs = Some []"
| "continuationOctets (Suc j) (p # h # l # cs) =
     (if p \<noteq> 0x25 then None
      else (case parseHexOctet h l of
              None \<Rightarrow> None
            | Some b \<Rightarrow> (case continuationOctets j cs of
                          None \<Rightarrow> None
                        | Some bs \<Rightarrow> Some (b # bs))))"
| "continuationOctets (Suc j) _ = None"

definition isContinuation :: "nat \<Rightarrow> bool" where
  "isContinuation b \<longleftrightarrow> 0x80 \<le> b \<and> b < 0xC0"

text \<open>
  The code point of a well-formed UTF-8 sequence of two to four octets: continuation
  octets of the form 10xxxxxx, no overlong form, no surrogate, nothing above U+10FFFF.
\<close>

fun utf8CodePoint :: "nat list \<Rightarrow> nat option" where
  "utf8CodePoint [a, b] =
     (let cp = (a - 0xC0) * 64 + (b - 0x80)
      in if isContinuation b \<and> 0x80 \<le> cp then Some cp else None)"
| "utf8CodePoint [a, b, c] =
     (let cp = (a - 0xE0) * 4096 + (b - 0x80) * 64 + (c - 0x80)
      in if isContinuation b \<and> isContinuation c \<and> 0x800 \<le> cp
            \<and> \<not> (0xD800 \<le> cp \<and> cp \<le> 0xDFFF)
         then Some cp else None)"
| "utf8CodePoint [a, b, c, d] =
     (let cp = (a - 0xF0) * 262144 + (b - 0x80) * 4096 + (c - 0x80) * 64 + (d - 0x80)
      in if isContinuation b \<and> isContinuation c \<and> isContinuation d
            \<and> 0x10000 \<le> cp \<and> cp \<le> 0x10FFFF
         then Some cp else None)"
| "utf8CodePoint _ = None"

definition utf16 :: "nat \<Rightarrow> jsstring" where
  "utf16 cp =
     (if cp \<le> 0xFFFF then [of_nat cp]
      else [of_nat (0xD800 + (cp - 0x10000) div 0x400),
            of_nat (0xDC00 + (cp - 0x10000) mod 0x400)])"

text \<open>
  \<open>Decode\<close> with the empty reserved set of \<open>decodeURIComponent\<close>. Every failure is a
  URIError: a \<open>%\<close> with fewer than two characters after it, a non-hexadecimal digit, a
  first octet 10xxxxxx or with more than four leading ones, a missing continuation escape,
  octets that are not well-formed UTF-8.
\<close>

fun Decode :: "jsstring \<Rightarrow> error + jsstring" where
  "Decode [] = Inr []"
| "Decode (c # cs) =
     (if c \<noteq> 0x25 then cons_ok c (Decode cs)
      else (case cs of
              h # l # rest \<Rightarrow>
                (case parseHexOctet h l of
                   None \<Rightarrow> Inl URIError
                 | Some b \<Rightarrow>
                     if leadingOnes b = 0 then cons_ok (of_nat b) (Decode rest)
                     else if leadingOnes b = 1 \<or> 4 < leadingOnes b then Inl URIError
                     else (case continuationOctets (leadingOnes b - 1) rest of
                             None \<Rightarrow> Inl URIError
                           | Some bs \<Rightarrow>
                               (case utf8CodePoint (b # bs) of
                                  None \<Rightarrow> Inl URIError
                                | Some cp \<Rightarrow>
                                    app_ok (utf16 cp)
                                      (Decode (drop (3 * (leadingOnes b - 1)) rest)))))
            | _ \<Rightarrow> Inl URIError))"

definition decodeURIComponent :: "jsstring \<Rightarrow> error + jsstring" where
  "decodeURIComponent s = Decode s"

section \<open>The cookie value in transport (cookie.js, lines 129-154)\<close>

text \<open>The alternatives of \<open>/%7B|%7D|%3A|%5B|%5D/g\<close>.\<close>

definition restoredEscapes :: "jsstring list" where
  "restoredEscapes = [js ''%7B'', js ''%7D'', js ''%3A'', js ''%5B'', js ''%5D'']"

text \<open>
  \<open>.replace\<close> with that expression and the function of lines 141-143: from left to
  right, each match is replaced by its \<open>decodeURIComponent\<close>, every other code unit is
  kept.
\<close>

fun replaceEscapes :: "jsstring \<Rightarrow> error + jsstring" where
  "replaceEscapes [] = Inr []"
| "replaceEscapes (c # cs) =
     (if take 3 (c # cs) \<in> set restoredEscapes
      then (case decodeURIComponent (take 3 (c # cs)) of
              Inl e \<Rightarrow> Inl e
            | Inr r \<Rightarrow> app_ok r (replaceEscapes (drop 2 cs)))
      else cons_ok c (replaceEscapes cs))"

definition encodeValue :: "jsstring \<Rightarrow> error + jsstring" where
  "encodeValue v =
     (case encodeURIComponent v of Inl e \<Rightarrow> Inl e | Inr s \<Rightarrow> replaceEscapes s)"

definition decodeValue :: "jsstring \<Rightarrow> error + jsstring" where
  "decodeValue v = decodeURIComponent v"

section \<open>trim (cookie.js, lines 184-198) and the split of document.cookie\<close>

text \<open>
  The class \<open>\s\<close>: the white space and line terminator code units of the language
  standard (U+00A0 is one of them, so the second alternative of \<open>rtrim\<close> adds
  nothing).
\<close>

definition isWhiteSpace :: "cu \<Rightarrow> bool" where
  "isWhiteSpace c \<longleftrightarrow>
     c \<in> set [0x09, 0x0A, 0x0B, 0x0C, 0x0D, 0x20, 0xA0, 0x1680, 0x2028, 0x2029, 0x202F,
              0x205F, 0x3000, 0xFEFF]
     \<or> (0x2000 \<le> c \<and> c \<le> 0x200A)"

text \<open>
  \<open>(str || "").replace(rtrim, "")\<close>: the run of white space at the start and the run
  at the end are removed.
\<close>

definition trim :: "jsval \<Rightarrow> jsstring" where
  "trim str = rev (dropWhile isWhiteSpace (rev (dropWhile isWhiteSpace (orEmpty str))))"

text \<open>\<open>s.split(sep)\<close> for a separator of one code unit.\<close>

fun split :: "cu \<Rightarrow> jsstring \<Rightarrow> jsstring list" where
  "split sep [] = [[]]"
| "split sep (c # cs) =
     (if c = sep then [] # split sep cs
      else (case split sep cs of [] \<Rightarrow> [[c]] | p # ps \<Rightarrow> (c # p) # ps))"

section \<open>The scramblers (cookie.js, lines 634-669)\<close>

text \<open>
  A scrambler is an object with the two functions \<open>encode\<close> and \<open>decode\<close>; a function
  of a caller's own scrambler may throw.
\<close>

record scrambler =
  encode :: "jsval \<Rightarrow> error + jsstring"
  decode :: "jsval \<Rightarrow> error + jsstring"

text \<open>
  The properties attached to the function object \<open>cookie\<close> that the function reads:
  the own properties of the object \<open>scramblers\<close>, and \<open>scramblerDefault\<close>.
\<close>

record cookieObject =
  scramblers :: "jsstring \<rightharpoonup> scrambler"
  scramblerDefault :: jsstring

definition scrambler_rot13 :: scrambler where
  "scrambler_rot13 =
     \<lparr>encode = (\<lambda>text. Inr (rot13 text)), decode = (\<lambda>text. Inr (rot13 text))\<rparr>"

definition scrambler_rot13n :: scrambler where
  "scrambler_rot13n =
     \<lparr>encode = (\<lambda>text. rot5 (Str (rot13 text))),
      decode = (\<lambda>text. rot5 (Str (rot13 text)))\<rparr>"

text \<open>The object as the module builds it, before any caller adds or changes a property.\<close>

definition cookieObject_initial :: cookieObject where
  "cookieObject_initial =
     \<lparr>scramblers = [js ''rot13'' \<mapsto> scrambler_rot13, js ''rot13n'' \<mapsto> scrambler_rot13n],
      scramblerDefault = js ''rot13n''\<rparr>"

text \<open>
  \<open>scramblers\<close> is an object literal, so a property read \<open>scramblers[key]\<close> that finds
  no own property goes on to \<open>Object.prototype\<close>, whose members are truthy and have
  neither \<open>encode\<close> nor \<open>decode\<close>.
\<close>

definition objectPrototypeKeys :: "jsstring list" where
  "objectPrototypeKeys =
     [js ''constructor'', js ''hasOwnProperty'', js ''isPrototypeOf'',
      js ''propertyIsEnumerable'', js ''toLocaleString'', js ''toString'', js ''valueOf'',
      js ''__proto__'', js ''__defineGetter__'', js ''__defineSetter__'',
      js ''__lookupGetter__'', js ''__lookupSetter__'']"

datatype property = Own scrambler | Inherited | Missing

definition getProperty :: "(jsstring \<rightharpoonup> scrambler) \<Rightarrow> jsstring \<Rightarrow> property" where
  "getProperty obj key =
     (case obj key of
        Some s \<Rightarrow> Own s
      | None \<Rightarrow> if key \<in> set objectPrototypeKeys then Inherited else Missing)"

definition truthy :: "property \<Rightarrow> bool" where
  "truthy p = (case p of Missing \<Rightarrow> False | _ \<Rightarrow> True)"

section \<open>The options and the browser\<close>

text \<open>
  \<open>options.scramble\<close> is a boolean or the name of a scrambler; \<open>options.expires\<close> is
  a number of days (whole days in this model) or a date, given by its time value.
\<close>

datatype scramble_option = SBool bool | SName jsstring

datatype expires_option = Days int | DateValue int

record options =
  expires :: "expires_option option"
  path :: "jsstring option"
  domain :: "jsstring option"
  secure :: bool
  scramble :: "scramble_option option"

text \<open>\<open>options || {}\<close> for an absent argument.\<close>

definition noOptions :: options where
  "noOptions = \<lparr>expires = None, path = None, domain = None, secure = False, scramble = None\<rparr>"

text \<open>Whether \<open>options.scramble\<close> is truthy, and the string it is as a property key.\<close>

definition scrambleSet :: "options \<Rightarrow> bool" where
  "scrambleSet opts =
     (case scramble opts of
        None \<Rightarrow> False
      | Some (SBool b) \<Rightarrow> b
      | Some (SName n) \<Rightarrow> n \<noteq> [])"

definition scrambleKey :: "options \<Rightarrow> jsstring" where
  "scrambleKey opts =
     (case scramble opts of
        None \<Rightarrow> js ''undefined''
      | Some (SBool b) \<Rightarrow> if b then js ''true'' else js ''false''
      | Some (SName n) \<Rightarrow> n)"

text \<open>
  What the function uses of the browser: the text that reading \<open>document.cookie\<close>
  gives, the time value of \<open>new Date()\<close>, and \<open>toUTCString\<close> of a date with a given
  time value. An assignment to \<open>document.cookie\<close> is returned as part of the outcome
  of the call.
\<close>

record browser =
  document_cookie :: jsstring
  now :: int
  toUTCString :: "int \<Rightarrow> jsstring"

record outcome =
  returned :: "jsstring option"
  assigned :: "jsstring option"

section \<open>The function cookie (cookie.js, lines 265-447)\<close>

text \<open>
  Lines 311-327, with \<open>self\<close> the value of the variable of that name: the function
  object, or \<open>None\<close> for \<open>undefined\<close>, of which no property can be read.
\<close>

definition scrambleValue :: "cookieObject option \<Rightarrow> options \<Rightarrow> jsstring \<Rightarrow> error + jsstring" where
  "scrambleValue self opts v =
     (case self of
        None \<Rightarrow> Inl TypeError
      | Some obj \<Rightarrow>
          (let key = (if \<not> truthy (getProperty (scramblers obj) (scrambleKey opts))
                      then scramblerDefault obj else scrambleKey opts)
           in case getProperty (scramblers obj) key of
                Missing \<Rightarrow> Inl TypeError
              | Inherited \<Rightarrow> Inl TypeError
              | Own s \<Rightarrow>
                  (case encode s (Str v) of
                     Inl e \<Rightarrow> Inl e
                   | Inr v' \<Rightarrow> Inr (scramblePrefixAdd key v'))))"

text \<open>Lines 329-384: the attributes after the value.\<close>

definition expiresAttribute :: "browser \<Rightarrow> options \<Rightarrow> jsstring" where
  "expiresAttribute b opts =
     (case expires opts of
        None \<Rightarrow> []
      | Some (Days n) \<Rightarrow>
          if n = 0 then []
          else js ''; expires='' @ toUTCString b (now b + n * 24 * 60 * 60 * 1000)
      | Some (DateValue t) \<Rightarrow> js ''; expires='' @ toUTCString b t)"

definition domainAttribute :: "options \<Rightarrow> jsstring" where
  "domainAttribute opts =
     (case domain opts of
        None \<Rightarrow> []
      | Some d \<Rightarrow> if d = [] then [] else js ''; domain='' @ d)"

definition secureAttribute :: "options \<Rightarrow> jsstring" where
  "secureAttribute opts = (if secure opts then js ''; secure'' else [])"

definition pathAttribute :: "options \<Rightarrow> jsstring" where
  "pathAttribute opts =
     (case path opts of
        None \<Rightarrow> js ''; path=/''
      | Some p \<Rightarrow> if p = [] then [] else js ''; path='' @ p)"

text \<open>Lines 310-388: the cookie is set; \<open>v\<close> is the value after lines 305-308.\<close>

definition cookieWrite ::
  "cookieObject option \<Rightarrow> browser \<Rightarrow> jsstring \<Rightarrow> jsstring \<Rightarrow> options \<Rightarrow> error + outcome" where
  "cookieWrite self b name v opts =
     (case (if scrambleSet opts then scrambleValue self opts v else Inr v) of
        Inl e \<Rightarrow> Inl e
      | Inr v' \<Rightarrow>
          (case encodeValue v' of
             Inl e \<Rightarrow> Inl e
           | Inr enc \<Rightarrow>
               Inr \<lparr>returned = Some v',
                    assigned = Some (name @ js ''='' @ enc @ expiresAttribute b opts
                                      @ pathAttribute opts @ domainAttribute opts
                                      @ secureAttribute opts)\<rparr>))"

text \<open>Lines 414-437: the value of a scrambled cookie.\<close>

definition unscrambleValue :: "cookieObject option \<Rightarrow> jsstring \<Rightarrow> error + jsstring" where
  "unscrambleValue self cookieValue =
     (let prefix = (if scramblePrefixGet cookieValue = [] then js ''rot13''
                    else scramblePrefixGet cookieValue)
      in case self of
           None \<Rightarrow> Inl TypeError
         | Some obj \<Rightarrow>
             (case getProperty (scramblers obj) prefix of
                Missing \<Rightarrow> Inl (Thrown (js ''Cannot unscramble cookie with prefix '' @ prefix))
              | Inherited \<Rightarrow> Inl TypeError
              | Own s \<Rightarrow> decode s (Str (scramblePrefixRemove cookieValue))))"

text \<open>Lines 402-442: the loop over the cookies, left at the first one of that name.\<close>

fun cookieLoop ::
  "cookieObject option \<Rightarrow> jsstring \<Rightarrow> options \<Rightarrow> jsstring list \<Rightarrow> error + jsstring option" where
  "cookieLoop self name opts [] = Inr None"
| "cookieLoop self name opts (c # cs) =
     (if take (length name + 1) (trim (Str c)) = name @ js ''=''
      then (case decodeValue (drop (length name + 1) (trim (Str c))) of
              Inl e \<Rightarrow> Inl e
            | Inr cookieValue \<Rightarrow>
                if scrambleSet opts
                then (case unscrambleValue self cookieValue of
                        Inl e \<Rightarrow> Inl e
                      | Inr v \<Rightarrow> Inr (Some v))
                else Inr (Some cookieValue))
      else cookieLoop self name opts cs)"

definition cookieRead ::
  "cookieObject option \<Rightarrow> browser \<Rightarrow> jsstring \<Rightarrow> options \<Rightarrow> error + outcome" where
  "cookieRead self b name opts =
     (case (if document_cookie b \<noteq> []
            then cookieLoop self name opts (split 0x3B (document_cookie b))
            else Inr None) of
        Inl e \<Rightarrow> Inl e
      | Inr r \<Rightarrow> Inr \<lparr>returned = r, assigned = None\<rparr>)"

text \<open>The body of the function, for a given value of \<open>self\<close>.\<close>

definition cookieBody ::
  "cookieObject option \<Rightarrow> browser \<Rightarrow> jsstring \<Rightarrow> jsval \<Rightarrow> options \<Rightarrow> error + outcome" where
  "cookieBody self b name v opts =
     (case v of
        Undefined \<Rightarrow> cookieRead self b name opts
      | Null \<Rightarrow> cookieWrite self b name [] (opts\<lparr>expires := Some (Days (- 1))\<rparr>)
      | Str s \<Rightarrow> cookieWrite self b name s opts)"

text \<open>
  Line 296, \<open>self = cookie\<close>, reads the variable \<open>cookie\<close> that line 279 declares in
  the function itself, not the function object of line 265. That variable is assigned
  only at line 405, so \<open>self\<close> is \<open>undefined\<close> in every call, whatever properties the
  function object has.
\<close>

definition cookie :: "browser \<Rightarrow> jsstring \<Rightarrow> jsval \<Rightarrow> options \<Rightarrow> error + outcome" where
  "cookie b name v opts = cookieBody None b name v opts"

section \<open>The methods of the function object (cookie.js, lines 473-593)\<close>

definition get :: "browser \<Rightarrow> jsstring \<Rightarrow> options \<Rightarrow> error + jsstring" where
  "get b name opts =
     (case cookie b name Undefined opts of
        Inl e \<Rightarrow> Inl e
      | Inr r \<Rightarrow> Inr (case returned r of None \<Rightarrow> [] | Some v \<Rightarrow> v))"

definition set_cookie :: "browser \<Rightarrow> jsstring \<Rightarrow> jsval \<Rightarrow> options \<Rightarrow> error + outcome" where
  "set_cookie b name v opts = cookie b name v opts"

text \<open>
  \<open>getJson\<close>, for a given \<open>JSON.parse\<close> (\<open>None\<close> when it throws). The result is the
  empty object of lines 526 and 536 or the parsed value.
\<close>

datatype 'j json_result = EmptyObject | Parsed 'j

definition getJson ::
  "(jsstring \<Rightarrow> 'j option) \<Rightarrow> browser \<Rightarrow> jsstring \<Rightarrow> options \<Rightarrow> error + 'j json_result" where
  "getJson parse b name opts =
     (case cookie b name Undefined opts of
        Inl e \<Rightarrow> Inl e
      | Inr r \<Rightarrow>
          (case returned r of
             None \<Rightarrow> Inr EmptyObject
           | Some v \<Rightarrow> (case parse v of None \<Rightarrow> Inr EmptyObject | Some j \<Rightarrow> Inr (Parsed j))))"

definition exists_cookie :: "browser \<Rightarrow> jsstring \<Rightarrow> error + bool" where
  "exists_cookie b name =
     (case cookie b name Undefined noOptions of
        Inl e \<Rightarrow> Inl e
      | Inr r \<Rightarrow> Inr (returned r \<noteq> None))"

definition deleteCookie :: "browser \<Rightarrow> jsstring \<Rightarrow> options \<Rightarrow> error + outcome" where
  "deleteCookie b name opts = cookie b name (Str []) (opts\<lparr>expires := Some (Days (- 1))\<rparr>)"

section \<open>Notions used to state the properties\<close>

text \<open>Sequencing of two calls: the second runs on the value of the first unless it threw.\<close>

definition andThen :: "error + 'a \<Rightarrow> ('a \<Rightarrow> error + 'b) \<Rightarrow> error + 'b" where
  "andThen r f = (case r of Inl e \<Rightarrow> Inl e | Inr v \<Rightarrow> f v)"

text \<open>
  A string is well formed when every surrogate code unit is half of a pair: a leading
  surrogate directly followed by a trailing one.
\<close>

fun wellFormed :: "jsstring \<Rightarrow> bool" where
  "wellFormed [] = True"
| "wellFormed (c # cs) =
     (if isLeadSurrogate c
      then (case cs of [] \<Rightarrow> False | d # ds \<Rightarrow> isTrailSurrogate d \<and> wellFormed ds)
      else \<not> isTrailSurrogate c \<and> wellFormed cs)"

text \<open>The code points that UTF-8 encodes: up to U+10FFFF, surrogates excluded.\<close>

definition isScalar :: "nat \<Rightarrow> bool" where
  "isScalar cp \<longleftrightarrow> cp \<le> 0x10FFFF \<and> \<not> (0xD800 \<le> cp \<and> cp \<le> 0xDFFF)"

text \<open>A first octet and its continuation octets that \<open>Decode\<close> turns into \<open>cp\<close>.\<close>

definition goodSequence :: "nat \<Rightarrow> nat \<Rightarrow> nat list \<Rightarrow> bool" where
  "goodSequence cp b bs \<longleftrightarrow>
     b < 256 \<and> (\<forall>x\<in>set bs. x < 256) \<and> leadingOnes b = Suc (length bs)
     \<and> bs \<noteq> [] \<and> length bs \<le> 3 \<and> utf8CodePoint (b # bs) = Some cp"

text \<open>What \<open>decodeValue\<close> makes of a percent-encoded text after the replacement of line 138.\<close>

definition restoreDecode :: "jsstring \<Rightarrow> error + jsstring" where
  "restoreDecode ys = (case replaceEscapes ys of Inl e \<Rightarrow> Inl e | Inr y' \<Rightarrow> Decode y')"

text \<open>
  The characters a cookie value must not contain (comment of line 125): comma,
  semicolon, equals sign and white space.
\<close>

definition channelForbidden :: "cu \<Rightarrow> bool" where
  "channelForbidden c \<longleftrightarrow> c = 0x2C \<or> c = 0x3B \<or> c = 0x3D \<or> isWhiteSpace c"

text \<open>
  The characters of an encoded value: the unreserved ones, the percent sign of an
  escape, and the five literals \<open>{ } : [ ]\<close>.
\<close>

definition transportAlphabet :: "cu \<Rightarrow> bool" where
  "transportAlphabet c \<longleftrightarrow>
     uriUnreserved c \<or> c = 0x25 \<or> c \<in> set [0x7B, 0x7D, 0x3A, 0x5B, 0x5D]"

text \<open>What \<open>rot13\<close> and \<open>rot5\<close> do to one code unit.\<close>

definition rot13char :: "cu \<Rightarrow> cu" where
  "rot13char a = (if isAsciiLetter a then rot13replace a else a)"

definition rot5char :: "cu \<Rightarrow> cu" where
  "rot5char a = (if isDigit a then rot5replace a else a)"

text \<open>The name under which a scrambled value is looked up: its prefix, or \<open>rot13\<close>.\<close>

definition prefixOrRot13 :: "jsstring \<Rightarrow> jsstring" where
  "prefixOrRot13 v = (if scramblePrefixGet v = [] then js ''rot13'' else scramblePrefixGet v)"

text \<open>
  The entry of \<open>document.cookie\<close> that a read of \<open>name\<close> stops at: the text after
  \<open>name=\<close> in the first of the parts between semicolons that, once trimmed, begins with
  \<open>name=\<close>.
\<close>

definition beginsWithName :: "jsstring \<Rightarrow> jsstring \<Rightarrow> bool" where
  "beginsWithName name c \<longleftrightarrow> take (length name + 1) (trim (Str c)) = name @ js ''=''"

definition cookieEntry :: "browser \<Rightarrow> jsstring \<Rightarrow> jsstring option" where
  "cookieEntry b name =
     (if document_cookie b = [] then None
      else (case find (beginsWithName name) (split 0x3B (document_cookie b)) of
              None \<Rightarrow> None
            | Some c \<Rightarrow> Some (drop (length name + 1) (trim (Str c)))))"

section \<open>Hexadecimal digits and escapes\<close>

lemma nat_less_16_cases:
  "k < 16 \<Longrightarrow> k \<in> {15, 14, 13, 12, 11, 10, 9, 8, 7, 6, 5, 4, 3, 2, 1, 0::nat}"
  by (simp only: insert_iff empty_iff) arith

lemma hexDigits_eval:
  "hexDigit 0 = 0x30" "hexDigit 1 = 0x31" "hexDigit (Suc 0) = 0x31" "hexDigit 2 = 0x32" "hexDigit 3 = 0x33"
  "hexDigit 4 = 0x34" "hexDigit 5 = 0x35" "hexDigit 6 = 0x36" "hexDigit 7 = 0x37"
  "hexDigit 8 = 0x38" "hexDigit 9 = 0x39" "hexDigit 10 = 0x41" "hexDigit 11 = 0x42"
  "hexDigit 12 = 0x43" "hexDigit 13 = 0x44" "hexDigit 14 = 0x45" "hexDigit 15 = 0x46"
  by (simp_all add: hexDigit_def js_def)

lemma parseHexDigit_hexDigit: "n < 16 \<Longrightarrow> parseHexDigit (hexDigit n) = Some n"
  by (drule nat_less_16_cases) (auto simp: hexDigits_eval parseHexDigit_def)

lemma hexDigit_not_percent: "n < 16 \<Longrightarrow> hexDigit n \<noteq> 0x25"
  by (drule nat_less_16_cases) (auto simp: hexDigits_eval)

lemma parseHexOctet_percent:
  "b < 256 \<Longrightarrow> parseHexOctet (hexDigit (b div 16)) (hexDigit (b mod 16)) = Some b"
  by (simp add: parseHexOctet_def parseHexDigit_hexDigit less_mult_imp_div_less)

section \<open>Decode on the output of Encode\<close>

lemma Decode_plain: "c \<noteq> 0x25 \<Longrightarrow> Decode (c # ys) = cons_ok c (Decode ys)"
  by simp

lemma Decode_percent_ascii:
  "b < 0x80 \<Longrightarrow> Decode (percent b @ ys) = cons_ok (of_nat b) (Decode ys)"
  by (simp add: percent_def parseHexOctet_percent leadingOnes_def)

lemma continuationOctets_percent:
  "\<forall>b\<in>set bs. b < 256 \<Longrightarrow>
   continuationOctets (length bs) (concat (map percent bs) @ ys) = Some bs"
  by (induction bs) (simp_all add: percent_def parseHexOctet_percent)

lemma length_percent: "length (percent b) = 3"
  by (simp add: percent_def)

lemma length_concat_percent: "length (concat (map percent bs)) = 3 * length bs"
  by (induction bs) (simp_all add: length_percent)

lemma Decode_sequence:
  assumes "b < 256" "\<forall>x\<in>set bs. x < 256" "leadingOnes b = Suc (length bs)" "bs \<noteq> []" "length bs \<le> 3"
    and "utf8CodePoint (b # bs) = Some cp"
  shows "Decode (concat (map percent (b # bs)) @ ys) = app_ok (utf16 cp) (Decode ys)"
proof -
  have "Decode (concat (map percent (b # bs)) @ ys)
      = Decode (0x25 # hexDigit (b div 16) # hexDigit (b mod 16) # (concat (map percent bs) @ ys))"
    by (simp add: percent_def)
  also have "\<dots> = app_ok (utf16 cp) (Decode (drop (3 * length bs) (concat (map percent bs) @ ys)))"
    using assms by (simp add: parseHexOctet_percent continuationOctets_percent)
  also have "drop (3 * length bs) (concat (map percent bs) @ ys) = ys"
    by (simp add: length_concat_percent)
  finally show ?thesis .
qed

lemma utf8_2:
  assumes "0x80 \<le> cp" "cp < 0x800"
  shows "\<exists>b bs. utf8 cp = b # bs \<and> goodSequence cp b bs"
proof -
  have u: "utf8 cp = [0xC0 + cp div 64, 0x80 + cp mod 64]"
    using assms by (simp add: utf8_def)
  have d: "cp div 64 < 32" using assms(2) by arith
  have m: "cp mod 64 < 64" by simp
  have e: "cp div 64 * 64 + cp mod 64 = cp" by simp
  have l: "leadingOnes (0xC0 + cp div 64) = 2"
    using d by (simp add: leadingOnes_def)
  have c: "utf8CodePoint [0xC0 + cp div 64, 0x80 + cp mod 64] = Some cp"
    using assms(1) m e by (simp add: isContinuation_def)
  have r: "0xC0 + cp div 64 < 256" "0x80 + cp mod 64 < 256"
    using d m by linarith+
  have "goodSequence cp (0xC0 + cp div 64) [0x80 + cp mod 64]"
    unfolding goodSequence_def using r l c by simp
  with u show ?thesis by blast
qed

lemma split3: "(cp::nat) div 4096 * 4096 + cp div 64 mod 64 * 64 + cp mod 64 = cp"
proof -
  have "cp div 64 div 64 = cp div 4096" by (simp add: div_mult2_eq[symmetric])
  then have "cp div 4096 * 64 + cp div 64 mod 64 = cp div 64"
    by (metis div_mult_mod_eq)
  then have "(cp div 4096 * 64 + cp div 64 mod 64) * 64 + cp mod 64 = cp" by simp
  then show ?thesis by (simp add: algebra_simps)
qed

lemma split4: "(cp::nat) div 262144 * 262144 + cp div 4096 mod 64 * 4096 + cp div 64 mod 64 * 64 + cp mod 64 = cp"
proof -
  have "cp div 4096 div 64 = cp div 262144" by (simp add: div_mult2_eq[symmetric])
  then have "cp div 262144 * 64 + cp div 4096 mod 64 = cp div 4096"
    by (metis div_mult_mod_eq)
  then have "(cp div 262144 * 64 + cp div 4096 mod 64) * 4096 + cp div 64 mod 64 * 64 + cp mod 64 = cp"
    using split3[of cp] by simp
  then show ?thesis by (simp add: algebra_simps)
qed

lemma utf8_3:
  assumes "0x800 \<le> cp" "cp < 0x10000" "\<not> (0xD800 \<le> cp \<and> cp \<le> 0xDFFF)"
  shows "\<exists>b bs. utf8 cp = b # bs \<and> goodSequence cp b bs"
proof -
  let ?a = "0xE0 + cp div 4096" and ?b = "0x80 + cp div 64 mod 64" and ?c = "0x80 + cp mod 64"
  have u: "utf8 cp = [?a, ?b, ?c]"
    using assms by (simp add: utf8_def)
  have d: "cp div 4096 < 16" using assms(2) by arith
  have m: "cp mod 64 < 64" "cp div 64 mod 64 < 64" by simp_all
  have l: "leadingOnes ?a = 3"
    using d by (simp add: leadingOnes_def)
  have v: "(?a - 0xE0) * 4096 + (?b - 0x80) * 64 + (?c - 0x80) = cp"
    using split3[of cp] by simp
  have c: "utf8CodePoint [?a, ?b, ?c] = Some cp"
    unfolding utf8CodePoint.simps v Let_def using assms m by (simp add: isContinuation_def)
  have r: "?a < 256" "?b < 256" "?c < 256"
    using d m by linarith+
  have "goodSequence cp ?a [?b, ?c]"
    unfolding goodSequence_def using r l c by simp
  with u show ?thesis by blast
qed

lemma utf8_4:
  assumes "0x10000 \<le> cp" "cp \<le> 0x10FFFF"
  shows "\<exists>b bs. utf8 cp = b # bs \<and> goodSequence cp b bs"
proof -
  let ?a = "0xF0 + cp div 262144" and ?b = "0x80 + cp div 4096 mod 64" 
  and ?c = "0x80 + cp div 64 mod 64" and ?d = "0x80 + cp mod 64"
  have u: "utf8 cp = [?a, ?b, ?c, ?d]"
    using assms by (simp add: utf8_def)
  have d: "cp div 262144 < 5" using assms(2) by arith
  have m: "cp mod 64 < 64" "cp div 64 mod 64 < 64" "cp div 4096 mod 64 < 64" by simp_all
  have l: "leadingOnes ?a = 4"
    using d by (simp add: leadingOnes_def)
  have v: "(?a - 0xF0) * 262144 + (?b - 0x80) * 4096 + (?c - 0x80) * 64 + (?d - 0x80) = cp"
    using split4[of cp] by simp
  have c: "utf8CodePoint [?a, ?b, ?c, ?d] = Some cp"
    unfolding utf8CodePoint.simps v Let_def using assms m by (simp add: isContinuation_def)
  have r: "?a < 256" "?b < 256" "?c < 256" "?d < 256"
    using d m by linarith+
  have "goodSequence cp ?a [?b, ?c, ?d]"
    unfolding goodSequence_def using r l c by simp
  with u show ?thesis by blast
qed

lemma utf8_good:
  assumes "0x80 \<le> cp" "isScalar cp"
  shows "\<exists>b bs. utf8 cp = b # bs \<and> goodSequence cp b bs"
proof (cases "cp < 0x800")
  case True then show ?thesis using assms utf8_2 by blast
next
  case F1: False
  show ?thesis
  proof (cases "cp < 0x10000")
    case True then show ?thesis using F1 assms utf8_3[of cp] by (simp add: isScalar_def)
  next
    case False then show ?thesis using assms utf8_4[of cp] by (simp add: isScalar_def)
  qed
qed

lemma Decode_escapeCodePoint:
  assumes "0x80 \<le> cp" "isScalar cp"
  shows "Decode (escapeCodePoint cp @ ys) = app_ok (utf16 cp) (Decode ys)"
proof -
  from utf8_good[OF assms] obtain b bs where u: "utf8 cp = b # bs" and g: "goodSequence cp b bs"
    by blast
  from g have "Decode (concat (map percent (b # bs)) @ ys) = app_ok (utf16 cp) (Decode ys)"
    unfolding goodSequence_def by (intro Decode_sequence) simp_all
  then show ?thesis
    unfolding escapeCodePoint_def u .
qed

section \<open>The replacement of line 138 on the output of Encode\<close>

lemma percent_inj:
  assumes "b < 256" "b' < 256" "percent b = percent b'"
  shows "b = b'"
proof -
  from assms(3) have "hexDigit (b div 16) = hexDigit (b' div 16)" "hexDigit (b mod 16) = hexDigit (b' mod 16)"
    by (simp_all add: percent_def)
  then have "parseHexOctet (hexDigit (b div 16)) (hexDigit (b mod 16))
     = parseHexOctet (hexDigit (b' div 16)) (hexDigit (b' mod 16))" by (rule arg_cong2)
  then show ?thesis
    unfolding parseHexOctet_percent[OF assms(1)] parseHexOctet_percent[OF assms(2)] by simp
qed

lemma restoredEscapes_percent:
  "restoredEscapes = [percent 0x7B, percent 0x7D, percent 0x3A, percent 0x5B, percent 0x5D]"
  by (simp add: restoredEscapes_def percent_def js_def hexDigits_eval)

lemma percent_restored_iff:
  assumes "b < 256"
  shows "percent b \<in> set restoredEscapes \<longleftrightarrow> b \<in> {0x7B, 0x7D, 0x3A, 0x5B, 0x5D}"
proof -
  have "percent b = percent k \<longleftrightarrow> b = k" if "k < 256" for k
    using percent_inj[OF assms that] by blast
  then have "percent b = percent 0x7B \<longleftrightarrow> b = 0x7B" "percent b = percent 0x7D \<longleftrightarrow> b = 0x7D"
    "percent b = percent 0x3A \<longleftrightarrow> b = 0x3A" "percent b = percent 0x5B \<longleftrightarrow> b = 0x5B"
    "percent b = percent 0x5D \<longleftrightarrow> b = 0x5D"
    by simp_all
  then show ?thesis
    unfolding restoredEscapes_percent by (simp only: set_simps insert_iff empty_iff)
qed

lemma restoredEscapes_hd: "p \<in> set restoredEscapes \<Longrightarrow> \<exists>q. p = 0x25 # q"
  unfolding restoredEscapes_percent percent_def by (simp only: set_simps insert_iff empty_iff) blast

lemma replaceEscapes_plain:
  assumes "c \<noteq> 0x25"
  shows "replaceEscapes (c # ys) = cons_ok c (replaceEscapes ys)"
proof -
  have "take 3 (c # ys) \<notin> set restoredEscapes"
  proof
    assume "take 3 (c # ys) \<in> set restoredEscapes"
    then obtain q where "take 3 (c # ys) = 0x25 # q" using restoredEscapes_hd by blast
    then show False using assms by (simp add: take_Cons')
  qed
  then show ?thesis by simp
qed

lemma take3_percent: "take 3 (percent b @ ys) = percent b"
  by (simp add: percent_def)

lemma percent_Cons: "percent b @ ys = 0x25 # hexDigit (b div 16) # hexDigit (b mod 16) # ys"
  by (simp add: percent_def)

lemma replaceEscapes_kept:
  assumes "b < 256" "b \<notin> {0x7B, 0x7D, 0x3A, 0x5B, 0x5D}"
  shows "replaceEscapes (percent b @ ys) = app_ok (percent b) (replaceEscapes ys)"
proof -
  let ?h = "hexDigit (b div 16)" and ?l = "hexDigit (b mod 16)"
  have n: "take 3 (0x25 # ?h # ?l # ys) \<notin> set restoredEscapes"
    using assms percent_restored_iff take3_percent[of b ys] unfolding percent_Cons by simp
  have h: "?h \<noteq> 0x25" and l: "?l \<noteq> 0x25"
    using assms(1) by (simp_all add: hexDigit_not_percent less_mult_imp_div_less)
  have "replaceEscapes (0x25 # ?h # ?l # ys) = cons_ok 0x25 (replaceEscapes (?h # ?l # ys))"
    using n by (simp only: replaceEscapes.simps if_False)
  also have "\<dots> = cons_ok 0x25 (cons_ok ?h (cons_ok ?l (replaceEscapes ys)))"
    by (simp only: replaceEscapes_plain[OF h] replaceEscapes_plain[OF l])
  also have "\<dots> = app_ok (percent b) (replaceEscapes ys)"
    by (simp add: percent_def cons_ok_def app_ok_def split: sum.splits)
  finally show ?thesis unfolding percent_Cons .
qed

lemma replaceEscapes_restored:
  assumes "b \<in> {0x7B, 0x7D, 0x3A, 0x5B, 0x5D}"
  shows "replaceEscapes (percent b @ ys) = cons_ok (of_nat b) (replaceEscapes ys)"
proof -
  let ?h = "hexDigit (b div 16)" and ?l = "hexDigit (b mod 16)"
  have b: "b < 256" "b < 0x80" using assms by auto
  have t: "take 3 (0x25 # ?h # ?l # ys) = percent b"
    using take3_percent[of b ys] unfolding percent_Cons .
  have m: "take 3 (0x25 # ?h # ?l # ys) \<in> set restoredEscapes"
    unfolding t using assms percent_restored_iff[OF b(1)] by blast
  have d: "decodeURIComponent (take 3 (0x25 # ?h # ?l # ys)) = Inr [of_nat b]"
    unfolding t using Decode_percent_ascii[OF b(2), of "[]"]
    by (simp add: decodeURIComponent_def cons_ok_def)
  have "replaceEscapes (0x25 # ?h # ?l # ys) = app_ok [of_nat b] (replaceEscapes (drop 2 (?h # ?l # ys)))"
    using m d by (simp only: replaceEscapes.simps if_True sum.case)
  also have "\<dots> = cons_ok (of_nat b) (replaceEscapes ys)"
    by (simp add: app_ok_def cons_ok_def split: sum.splits)
  finally show ?thesis unfolding percent_Cons .
qed

lemma replaceEscapes_sequence:
  assumes "\<forall>b\<in>set bs. 0x80 \<le> b \<and> b < 256"
  shows "replaceEscapes (concat (map percent bs) @ ys) = app_ok (concat (map percent bs)) (replaceEscapes ys)"
  using assms
proof (induction bs)
  case Nil
  then show ?case by (simp add: app_ok_def split: sum.splits)
next
  case (Cons b bs)
  then have "replaceEscapes (percent b @ (concat (map percent bs) @ ys))
     = app_ok (percent b) (replaceEscapes (concat (map percent bs) @ ys))"
    by (intro replaceEscapes_kept) auto
  with Cons show ?case by (simp add: app_ok_def split: sum.splits)
qed

section \<open>Surrogate pairs\<close>

lemma utf8_ge: "0x80 \<le> cp \<Longrightarrow> \<forall>x\<in>set (utf8 cp). 0x80 \<le> x"
  by (simp add: utf8_def)

lemma unat_cu_less: "unat (c::cu) < 65536"
  using unsigned_less[of c] by simp

lemma utf16_unat:
  "utf16 (unat (c::cu)) = [c]"
  using unat_cu_less[of c] by (simp add: utf16_def)

lemma isScalar_unat:
  "\<not> isLeadSurrogate c \<Longrightarrow> \<not> isTrailSurrogate c \<Longrightarrow> isScalar (unat c)"
  using unat_cu_less[of c]
  by (auto simp: isScalar_def isLeadSurrogate_def isTrailSurrogate_def word_le_nat_alt)

lemma pair_facts:
  assumes "isLeadSurrogate c" "isTrailSurrogate d"
  shows "0x10000 \<le> surrogatePairToCodePoint c d" "surrogatePairToCodePoint c d \<le> 0x10FFFF"
    "(surrogatePairToCodePoint c d - 0x10000) div 0x400 = unat c - 0xD800"
    "(surrogatePairToCodePoint c d - 0x10000) mod 0x400 = unat d - 0xDC00"
proof -
  define a where "a = unat c - 0xD800"
  define b where "b = unat d - 0xDC00"
  have a: "a < 0x400" and b: "b < 0x400"
    using assms unfolding a_def b_def isLeadSurrogate_def isTrailSurrogate_def word_le_nat_alt
    by (simp_all, linarith+)
  have p: "surrogatePairToCodePoint c d = a * 0x400 + b + 0x10000"
    by (simp add: surrogatePairToCodePoint_def a_def b_def)
  show "0x10000 \<le> surrogatePairToCodePoint c d" unfolding p by simp
  have "a * 0x400 \<le> 0x3FF * 0x400" using a by simp
  then show "surrogatePairToCodePoint c d \<le> 0x10FFFF" unfolding p using b by simp
  show "(surrogatePairToCodePoint c d - 0x10000) div 0x400 = unat c - 0xD800"
    unfolding p using b by (simp add: a_def[symmetric])
  show "(surrogatePairToCodePoint c d - 0x10000) mod 0x400 = unat d - 0xDC00"
    unfolding p using b by (simp add: b_def[symmetric])
qed

lemma utf16_pair:
  assumes "isLeadSurrogate c" "isTrailSurrogate d"
  shows "utf16 (surrogatePairToCodePoint c d) = [c, d]"
proof -
  have c: "0xD800 \<le> unat c" and d: "0xDC00 \<le> unat d"
    using assms unfolding isLeadSurrogate_def isTrailSurrogate_def word_le_nat_alt by simp_all
  have "\<not> surrogatePairToCodePoint c d \<le> 0xFFFF"
    using pair_facts(1)[OF assms] by simp
  then have "utf16 (surrogatePairToCodePoint c d)
     = [of_nat (0xD800 + (unat c - 0xD800)), of_nat (0xDC00 + (unat d - 0xDC00))]"
    unfolding utf16_def pair_facts(3,4)[OF assms] by (simp only: if_False)
  also have "0xD800 + (unat c - 0xD800) = unat c" using c by simp
  also have "0xDC00 + (unat d - 0xDC00) = unat d" using d by simp
  finally show ?thesis by simp
qed

lemma isScalar_pair:
  assumes "isLeadSurrogate c" "isTrailSurrogate d"
  shows "isScalar (surrogatePairToCodePoint c d)" "0x80 \<le> surrogatePairToCodePoint c d"
  using pair_facts(1,2)[OF assms] by (simp_all add: isScalar_def)

section \<open>The round trip of a cookie value\<close>

lemma uriUnreserved_unat:
  "uriUnreserved c \<Longrightarrow> unat c < 0x80 \<and> c \<noteq> 0x25"
  unfolding uriUnreserved_def isAsciiLetter_def isDigit_def word_le_nat_alt
  by (elim disjE) auto

lemma uriUnreserved_not_surrogate:
  "uriUnreserved c \<Longrightarrow> \<not> isLeadSurrogate c \<and> \<not> isTrailSurrogate c"
  using uriUnreserved_unat[of c]
  unfolding isLeadSurrogate_def isTrailSurrogate_def word_le_nat_alt by auto

lemma restoreDecode_plain:
  assumes "c \<noteq> 0x25"
  shows "restoreDecode (c # ys) = cons_ok c (restoreDecode ys)"
  unfolding restoreDecode_def replaceEscapes_plain[OF assms]
  using assms by (simp add: cons_ok_def split: sum.splits)

lemma restoreDecode_ascii:
  assumes "unat (c::cu) < 0x80"
  shows "restoreDecode (escapeCodePoint (unat c) @ ys) = cons_ok c (restoreDecode ys)"
proof -
  let ?b = "unat c"
  have e: "escapeCodePoint ?b = percent ?b"
    using assms by (simp add: escapeCodePoint_def utf8_def)
  have w: "of_nat ?b = c" by simp
  show ?thesis
  proof (cases "?b \<in> {0x7B, 0x7D, 0x3A, 0x5B, 0x5D}")
    case True
    then have "c \<noteq> 0x25" by auto
    then show ?thesis
      unfolding e restoreDecode_def replaceEscapes_restored[OF True] w
      by (simp add: cons_ok_def split: sum.splits)
  next
    case False
    have b: "?b < 256" using assms by simp
    show ?thesis
      unfolding e restoreDecode_def replaceEscapes_kept[OF b False]
      using Decode_percent_ascii[OF assms]
      by (simp add: cons_ok_def app_ok_def split: sum.splits)
  qed
qed

lemma restoreDecode_scalar:
  assumes "0x80 \<le> cp" "isScalar cp"
  shows "restoreDecode (escapeCodePoint cp @ ys) = app_ok (utf16 cp) (restoreDecode ys)"
proof -
  from utf8_good[OF assms] obtain b bs where u: "utf8 cp = b # bs" and g: "goodSequence cp b bs"
    by blast
  have "\<forall>x\<in>set (utf8 cp). 0x80 \<le> x \<and> x < 256"
    using utf8_ge[OF assms(1)] g unfolding u goodSequence_def by simp
  then have "replaceEscapes (escapeCodePoint cp @ ys) = app_ok (escapeCodePoint cp) (replaceEscapes ys)"
    unfolding escapeCodePoint_def by (rule replaceEscapes_sequence)
  then show ?thesis
    unfolding restoreDecode_def
    using Decode_escapeCodePoint[OF assms]
    by (simp add: app_ok_def split: sum.splits)
qed

lemma restoreDecode_unit:
  assumes "\<not> isLeadSurrogate c" "\<not> isTrailSurrogate c"
  shows "restoreDecode (escapeCodePoint (unat c) @ ys) = cons_ok c (restoreDecode ys)"
proof (cases "unat c < 0x80")
  case True
  then show ?thesis by (rule restoreDecode_ascii)
next
  case False
  then have "0x80 \<le> unat c" by simp
  from restoreDecode_scalar[OF this isScalar_unat[OF assms], of ys]
  show ?thesis
    unfolding utf16_unat by (simp add: app_ok_def cons_ok_def split: sum.splits)
qed

lemma restoreDecode_pair:
  assumes "isLeadSurrogate c" "isTrailSurrogate d"
  shows "restoreDecode (escapeCodePoint (surrogatePairToCodePoint c d) @ ys) = app_ok [c, d] (restoreDecode ys)"
  using restoreDecode_scalar[OF isScalar_pair(2,1)[OF assms]]
  unfolding utf16_pair[OF assms] .

lemma Encode_wellFormed:
  "wellFormed x \<Longrightarrow> \<exists>y. Encode x = Inr y \<and> restoreDecode y = Inr x"
proof (induction x rule: wellFormed.induct)
  case 1
  then show ?case by (simp add: restoreDecode_def)
next
  case (2 c cs)
  show ?case
  proof (cases "isLeadSurrogate c")
    case True
    with "2.prems" obtain d ds where cs: "cs = d # ds" and d: "isTrailSurrogate d" and w: "wellFormed ds"
      by (auto split: list.splits)
    from "2.IH"(1)[OF True cs w] obtain y where y: "Encode ds = Inr y" "restoreDecode y = Inr ds"
      by blast
    have nu: "\<not> uriUnreserved c" using True uriUnreserved_not_surrogate by blast
    have "Encode (c # cs) = Inr (escapeCodePoint (surrogatePairToCodePoint c d) @ y)"
      using nu True d y(1) by (simp add: cs app_ok_def)
    moreover have "restoreDecode (escapeCodePoint (surrogatePairToCodePoint c d) @ y) = Inr (c # cs)"
      unfolding restoreDecode_pair[OF True d] y(2) cs by (simp add: app_ok_def)
    ultimately show ?thesis by blast
  next
    case False
    with "2.prems" have t: "\<not> isTrailSurrogate c" and w: "wellFormed cs" by simp_all
    from "2.IH"(2)[OF False w] obtain y where y: "Encode cs = Inr y" "restoreDecode y = Inr cs"
      by blast
    show ?thesis
    proof (cases "uriUnreserved c")
      case True
      then have "c \<noteq> 0x25" using uriUnreserved_unat by blast
      then have "restoreDecode (c # y) = Inr (c # cs)"
        unfolding restoreDecode_plain[OF \<open>c \<noteq> 0x25\<close>] y(2) by (simp add: cons_ok_def)
      moreover have "Encode (c # cs) = Inr (c # y)" using True y(1) by (simp add: cons_ok_def)
      ultimately show ?thesis by blast
    next
      case nu: False
      have "Encode (c # cs) = Inr (escapeCodePoint (unat c) @ y)"
        using nu False t y(1) by (simp add: app_ok_def)
      moreover have "restoreDecode (escapeCodePoint (unat c) @ y) = Inr (c # cs)"
        unfolding restoreDecode_unit[OF False t] y(2) by (simp add: cons_ok_def)
      ultimately show ?thesis by blast
    qed
  qed
qed

lemma Encode_not_wellFormed:
  "\<not> wellFormed x \<Longrightarrow> Encode x = Inl URIError"
proof (induction x rule: wellFormed.induct)
  case 1
  then show ?case by simp
next
  case (2 c cs)
  show ?case
  proof (cases "isLeadSurrogate c")
    case True
    have nu: "\<not> uriUnreserved c" using True uriUnreserved_not_surrogate by blast
    show ?thesis
    proof (cases cs)
      case Nil
      then show ?thesis using True nu by simp
    next
      case (Cons d ds)
      show ?thesis
      proof (cases "isTrailSurrogate d")
        case False
        then show ?thesis using True nu Cons by simp
      next
        case d: True
        with "2.prems" True Cons have "\<not> wellFormed ds" by simp
        from "2.IH"(1)[OF True Cons this] show ?thesis
          using True nu Cons d by (simp add: app_ok_def)
      qed
    qed
  next
    case False
    show ?thesis
    proof (cases "isTrailSurrogate c")
      case True
      then show ?thesis using False uriUnreserved_not_surrogate[of c] by auto
    next
      case t: False
      with "2.prems" False have "\<not> wellFormed cs" by simp
      from "2.IH"(2)[OF False this] show ?thesis
        using False t by (simp add: app_ok_def cons_ok_def)
    qed
  qed
qed

section \<open>The characters of an encoded value\<close>

lemma hexDigit_unreserved: "n < 16 \<Longrightarrow> uriUnreserved (hexDigit n)"
  by (drule nat_less_16_cases)
     (auto simp: hexDigits_eval uriUnreserved_def isAsciiLetter_def isDigit_def)

lemma percent_alphabet: "b < 256 \<Longrightarrow> \<forall>c\<in>set (percent b). uriUnreserved c \<or> c = 0x25"
  by (simp add: percent_def hexDigit_unreserved less_mult_imp_div_less)

lemma utf8_octets: "cp \<le> 0x10FFFF \<Longrightarrow> \<forall>b\<in>set (utf8 cp). b < 256"
proof -
  assume a: "cp \<le> 0x10FFFF"
  have m: "cp mod 64 < 64" "cp div 64 mod 64 < 64" "cp div 4096 mod 64 < 64" by simp_all
  have 1: "cp < 0x800 \<Longrightarrow> cp div 64 < 32" by arith
  have 2: "cp < 0x10000 \<Longrightarrow> cp div 4096 < 16" by arith
  have 3: "cp div 262144 < 5" using a by arith
  have r: "0x80 + cp mod 64 < 256" "0x80 + cp div 64 mod 64 < 256" "0x80 + cp div 4096 mod 64 < 256"
    "cp < 0x800 \<Longrightarrow> 0xC0 + cp div 64 < 256" "cp < 0x10000 \<Longrightarrow> 0xE0 + cp div 4096 < 256"
    "0xF0 + cp div 262144 < 256"
    using m 1 2 3 by linarith+
  show ?thesis
    unfolding utf8_def using r by (simp del: mod_less_divisor)
qed

lemma escapeCodePoint_alphabet:
  assumes "cp \<le> 0x10FFFF"
  shows "\<forall>c\<in>set (escapeCodePoint cp). uriUnreserved c \<or> c = 0x25"
  unfolding escapeCodePoint_def
  using utf8_octets[OF assms] percent_alphabet by auto

lemma Encode_alphabet:
  "Encode x = Inr y \<Longrightarrow> \<forall>c\<in>set y. uriUnreserved c \<or> c = 0x25"
proof (induction x arbitrary: y rule: Encode.induct)
  case 1
  then show ?case by simp
next
  case (2 c cs)
  show ?case
  proof (cases "uriUnreserved c")
    case True
    with "2.prems" obtain y0 where y0: "Encode cs = Inr y0" "y = c # y0"
      by (auto simp: cons_ok_def split: sum.splits)
    from "2.IH"(1)[OF True y0(1)] True y0(2) show ?thesis by simp
  next
    case nu: False
    show ?thesis
    proof (cases "isLeadSurrogate c")
      case True
      with nu "2.prems" obtain d ds y0 where s: "cs = d # ds" "isTrailSurrogate d" "Encode ds = Inr y0"
        "y = escapeCodePoint (surrogatePairToCodePoint c d) @ y0"
        by (auto simp: app_ok_def split: sum.splits list.splits if_splits)
      from "2.IH"(2)[OF nu True s(1,2,3)] escapeCodePoint_alphabet[OF pair_facts(2)[OF True s(2)]]
      show ?thesis unfolding s(4) by auto
    next
      case False
      with nu "2.prems" obtain y0 where s: "\<not> isTrailSurrogate c" "Encode cs = Inr y0"
        "y = escapeCodePoint (unat c) @ y0"
        by (auto simp: app_ok_def split: sum.splits if_splits)
      have "unat c \<le> 0x10FFFF" using unat_cu_less[of c] by simp
      from "2.IH"(3)[OF nu False s(1,2)] escapeCodePoint_alphabet[OF this]
      show ?thesis unfolding s(3) by auto
    qed
  qed
qed

lemma decode_restored:
  assumes "p \<in> set restoredEscapes"
  shows "\<exists>c. decodeURIComponent p = Inr [c] \<and> c \<in> set [0x7B, 0x7D, 0x3A, 0x5B, 0x5D]"
proof -
  have d: "decodeURIComponent (percent b) = Inr [of_nat b]" if "b < 0x80" for b
    using Decode_percent_ascii[OF that, of "[]"] by (simp add: decodeURIComponent_def cons_ok_def)
  from assms consider "p = percent 0x7B" | "p = percent 0x7D" | "p = percent 0x3A"
    | "p = percent 0x5B" | "p = percent 0x5D"
    unfolding restoredEscapes_percent by (simp only: set_simps insert_iff empty_iff) blast
  then show ?thesis
    by cases (simp_all add: d)
qed

lemma replaceEscapes_alphabet:
  "\<forall>c\<in>set y. uriUnreserved c \<or> c = 0x25 \<Longrightarrow>
   \<exists>y'. replaceEscapes y = Inr y' \<and> (\<forall>c\<in>set y'. transportAlphabet c)"
proof (induction y rule: replaceEscapes.induct)
  case 1
  then show ?case by simp
next
  case (2 c cs)
  show ?case
  proof (cases "take 3 (c # cs) \<in> set restoredEscapes")
    case True
    from decode_restored[OF True] obtain r where
      r: "decodeURIComponent (take 3 (c # cs)) = Inr [r]" "r \<in> set [0x7B, 0x7D, 0x3A, 0x5B, 0x5D]"
      by blast
    have "\<forall>c\<in>set (drop 2 cs). uriUnreserved c \<or> c = 0x25"
      using "2.prems" by (auto dest: in_set_dropD)
    from "2.IH"(1)[OF True r(1) this] obtain y' where
      y': "replaceEscapes (drop 2 cs) = Inr y'" "\<forall>c\<in>set y'. transportAlphabet c" by blast
    have "replaceEscapes (c # cs) = Inr (r # y')"
      using True r(1) y'(1) by (simp add: app_ok_def)
    moreover have "transportAlphabet r" using r(2) unfolding transportAlphabet_def by blast
    ultimately show ?thesis using y'(2) by simp
  next
    case False
    have "\<forall>c\<in>set cs. uriUnreserved c \<or> c = 0x25" using "2.prems" by simp
    from "2.IH"(2)[OF False this] obtain y' where
      y': "replaceEscapes cs = Inr y'" "\<forall>c\<in>set y'. transportAlphabet c" by blast
    have "replaceEscapes (c # cs) = Inr (c # y')"
      using False y'(1) by (simp add: cons_ok_def)
    moreover have "transportAlphabet c" using "2.prems" unfolding transportAlphabet_def by auto
    ultimately show ?thesis using y'(2) by simp
  qed
qed

lemma transportAlphabet_allowed: "transportAlphabet c \<Longrightarrow> \<not> channelForbidden c"
  unfolding transportAlphabet_def channelForbidden_def isWhiteSpace_def uriUnreserved_def
    isAsciiLetter_def isDigit_def word_le_nat_alt
  by (elim disjE) auto

section \<open>Rot13 and Rot5 on one character\<close>

lemma rot13replace_unat: "isAsciiLetter c \<Longrightarrow> unat (rot13replace c) = (if 109 < unat c \<or> (unat c < 97 \<and> 77 < unat c) then unat c - 13 else unat c + 13)"
  unfolding isAsciiLetter_def rot13replace_def
  by (auto simp: word_le_nat_alt word_less_nat_alt unat_sub_if' unat_word_ariths)

lemma isAsciiLetter_unat: "isAsciiLetter c \<longleftrightarrow> (65 \<le> unat c \<and> unat c \<le> 90) \<or> (97 \<le> unat c \<and> unat c \<le> 122)"
  unfolding isAsciiLetter_def
  by (auto simp: word_le_nat_alt word_less_nat_alt)

lemma rot13replace_letter: "isAsciiLetter c \<Longrightarrow> isAsciiLetter (rot13replace c)"
  by (auto simp: isAsciiLetter_unat rot13replace_unat )

lemma rot13replace_invol: "isAsciiLetter c \<Longrightarrow> rot13replace (rot13replace c) = c"
  apply (rule word_unat_eq_iff[THEN iffD2])
  apply (frule rot13replace_letter)
  apply (simp add: rot13replace_unat)
  apply (auto simp: isAsciiLetter_unat)
  done

lemma isDigit_cases:
  assumes "isDigit c"
  shows "c = 0x30 \<or> c = 0x31 \<or> c = 0x32 \<or> c = 0x33 \<or> c = 0x34 \<or> c = 0x35 \<or> c = 0x36
     \<or> c = 0x37 \<or> c = 0x38 \<or> c = 0x39"
proof -
  have "unat c = 48 \<or> unat c = 49 \<or> unat c = 50 \<or> unat c = 51 \<or> unat c = 52 \<or> unat c = 53
     \<or> unat c = 54 \<or> unat c = 55 \<or> unat c = 56 \<or> unat c = 57"
    using assms unfolding isDigit_def word_le_nat_alt by simp arith
  then show ?thesis
    unfolding word_unat_eq_iff by simp
qed

lemma rot5replace_digit: "isDigit c \<Longrightarrow> isDigit (rot5replace c) \<and> rot5replace (rot5replace c) = c"
  by (drule isDigit_cases) (elim disjE; simp add: rot5replace_def rot5matrix_def isDigit_def)

lemma digit_not_letter: "isDigit c \<Longrightarrow> \<not> isAsciiLetter c"
  unfolding isDigit_def isAsciiLetter_def word_le_nat_alt by auto

lemma rot13char_invol: "rot13char (rot13char c) = c"
  by (simp add: rot13char_def rot13replace_letter rot13replace_invol)

lemma rot13n_char_invol: "rot5char (rot13char (rot5char (rot13char c))) = c"
proof (cases "isAsciiLetter c")
  case True
  then have l: "isAsciiLetter (rot13replace c)" by (rule rot13replace_letter)
  then have "\<not> isDigit (rot13replace c)" "\<not> isDigit c" using True digit_not_letter by blast+
  then show ?thesis using True l by (simp add: rot13char_def rot5char_def rot13replace_invol digit_not_letter)
next
  case False
  show ?thesis
  proof (cases "isDigit c")
    case True
    then have d: "isDigit (rot5replace c)" "rot5replace (rot5replace c) = c"
      using rot5replace_digit by blast+
    then have "\<not> isAsciiLetter (rot5replace c)" using digit_not_letter by blast
    then show ?thesis using False True d by (simp add: rot13char_def rot5char_def)
  next
    case d: False
    then show ?thesis using False by (simp add: rot13char_def rot5char_def)
  qed
qed

lemma rot13_Str: "rot13 (Str s) = map rot13char s"
  by (simp add: rot13_def orEmpty_def rot13char_def)

lemma rot5_Str: "rot5 (Str s) = Inr (map rot5char s)"
  by (simp add: rot5_def rot5char_def)

lemma rot13_rot13: "rot13 (Str (rot13 (Str x))) = x"
  by (simp add: rot13_Str rot13char_invol map_idI)

lemma rot13n_rot13n: "rot5 (Str (rot13 (Str (map rot5char (rot13 (Str x)))))) = Inr x"
  by (simp add: rot13_Str rot5_Str rot13n_char_invol map_idI)

lemma encodeValue_wellFormed:
  assumes "wellFormed x"
  shows "\<exists>y. encodeValue x = Inr y \<and> decodeValue y = Inr x \<and> (\<forall>c\<in>set y. transportAlphabet c)"
proof -
  from Encode_wellFormed[OF assms] obtain y where y: "Encode x = Inr y" "restoreDecode y = Inr x"
    by blast
  from replaceEscapes_alphabet[OF Encode_alphabet[OF y(1)]] obtain y' where
    y': "replaceEscapes y = Inr y'" "\<forall>c\<in>set y'. transportAlphabet c" by blast
  have "encodeValue x = Inr y'"
    using y(1) y'(1) by (simp add: encodeValue_def encodeURIComponent_def)
  moreover have "decodeValue y' = Inr x"
    using y(2) y'(1) by (simp add: decodeValue_def decodeURIComponent_def restoreDecode_def)
  ultimately show ?thesis using y'(2) by blast
qed

lemma encodeValue_not_wellFormed:
  "\<not> wellFormed x \<Longrightarrow> encodeValue x = Inl URIError"
  by (simp add: encodeValue_def encodeURIComponent_def Encode_not_wellFormed)

section \<open>The match of the prefix expression\<close>

lemma lazyDots_iff:
  "lazyDots s = Some (t, r) \<longleftrightarrow>
   s = t @ 0x5D # r \<and> 0x5D \<notin> set t \<and> \<not> list_ex isLineTerminator t"
proof (induction s arbitrary: t)
  case Nil
  then show ?case by simp
next
  case (Cons c cs)
  show ?case
  proof (cases t)
    case Nil
    then show ?thesis by (auto split: option.splits)
  next
    case t: (Cons x t')
    show ?thesis
    proof (cases "c = 0x5D \<or> isLineTerminator c")
      case True
      then show ?thesis unfolding t by auto
    next
      case False
      have "lazyDots (c # cs) = Some (x # t', r) \<longleftrightarrow> x = c \<and> lazyDots cs = Some (t', r)"
        using False by (auto split: option.splits)
      also have "\<dots> \<longleftrightarrow> x = c \<and> cs = t' @ 0x5D # r \<and> 0x5D \<notin> set t' \<and> \<not> list_ex isLineTerminator t'"
        unfolding Cons.IH ..
      also have "\<dots> \<longleftrightarrow> c # cs = (x # t') @ 0x5D # r \<and> 0x5D \<notin> set (x # t')
           \<and> \<not> list_ex isLineTerminator (x # t')"
        using False by auto
      finally show ?thesis unfolding t .
    qed
  qed
qed

lemma prefixMatch_iff:
  "prefixMatch s = Some (t, r) \<longleftrightarrow>
   (\<exists>c t'. t = c # t' \<and> s = 0x5B # c # t' @ 0x5D # r \<and> 0x5D \<notin> set t'
      \<and> \<not> list_ex isLineTerminator (c # t'))"
proof (cases s)
  case Nil
  then show ?thesis by simp
next
  case s': (Cons b s')
  show ?thesis
  proof (cases s')
    case Nil
    with s' show ?thesis by simp
  next
    case (Cons c cs)
    with s' have 1: "s = b # c # cs" by simp
    have m: "prefixMatch s = Some (t, r) \<longleftrightarrow>
        b = 0x5B \<and> \<not> isLineTerminator c \<and> (\<exists>t'. lazyDots cs = Some (t', r) \<and> t = c # t')"
      unfolding 1 by (auto split: option.splits)
    let ?R = "\<exists>c t'. t = c # t' \<and> s = 0x5B # c # t' @ 0x5D # r \<and> 0x5D \<notin> set t'
        \<and> \<not> list_ex isLineTerminator (c # t')"
    show ?thesis
    proof
      assume "prefixMatch s = Some (t, r)"
      with m obtain t' where "b = 0x5B" "\<not> isLineTerminator c" "lazyDots cs = Some (t', r)"
        "t = c # t'"
        by blast
      then show ?R unfolding 1 lazyDots_iff by simp
    next
      assume ?R
      then obtain c' t' where r: "t = c' # t'" "s = 0x5B # c' # t' @ 0x5D # r" "0x5D \<notin> set t'"
        "\<not> list_ex isLineTerminator (c' # t')" by blast
      from r(2) have e: "b = 0x5B" "c = c'" "cs = t' @ 0x5D # r" unfolding 1 by simp_all
      have "lazyDots cs = Some (t', r)" unfolding lazyDots_iff using e(3) r(3,4) by simp
      then show "prefixMatch s = Some (t, r)" unfolding m using e r(1,4) by simp
    qed
  qed
qed

lemma prefixMatch_Add:
  assumes "name \<noteq> []" "0x5D \<notin> set name" "\<not> list_ex isLineTerminator name"
  shows "prefixMatch (scramblePrefixAdd name p) = Some (name, p)"
proof -
  from assms(1) obtain c t where n: "name = c # t" by (cases name) auto
  show ?thesis
    unfolding prefixMatch_iff scramblePrefixAdd_def using assms(2,3) unfolding n by simp
qed

lemma prefixMatch_None:
  assumes "\<nexists>c t r. s = 0x5B # c # t @ 0x5D # r \<and> \<not> list_ex isLineTerminator (c # t)"
  shows "prefixMatch s = None"
proof (cases "prefixMatch s")
  case None
  then show ?thesis .
next
  case (Some a)
  obtain t r where "a = (t, r)" by (cases a)
  with Some have "prefixMatch s = Some (t, r)" by simp
  then obtain c t' where "s = 0x5B # c # t' @ 0x5D # r" "\<not> list_ex isLineTerminator (c # t')"
    unfolding prefixMatch_iff by blast
  with assms show ?thesis by blast
qed

section \<open>A read, by the entry it stops at\<close>

lemma cookieLoop_find:
  "cookieLoop self name opts cs =
     (case find (beginsWithName name) cs of
        None \<Rightarrow> Inr None
      | Some c \<Rightarrow>
          (case decodeValue (drop (length name + 1) (trim (Str c))) of
             Inl e \<Rightarrow> Inl e
           | Inr v \<Rightarrow>
               if scrambleSet opts
               then (case unscrambleValue self v of Inl e \<Rightarrow> Inl e | Inr v' \<Rightarrow> Inr (Some v'))
               else Inr (Some v)))"
  by (induction cs) (simp_all add: beginsWithName_def)

lemma cookieBody_read:
  "cookieBody self b name Undefined opts =
     (case cookieEntry b name of
        None \<Rightarrow> Inr \<lparr>returned = None, assigned = None\<rparr>
      | Some raw \<Rightarrow>
          (case decodeValue raw of
             Inl e \<Rightarrow> Inl e
           | Inr v \<Rightarrow>
               if scrambleSet opts
               then (case unscrambleValue self v of
                       Inl e \<Rightarrow> Inl e
                     | Inr v' \<Rightarrow> Inr \<lparr>returned = Some v', assigned = None\<rparr>)
               else Inr \<lparr>returned = Some v, assigned = None\<rparr>))"
  by (simp add: cookieBody_def cookieRead_def cookieEntry_def cookieLoop_find
      split: option.splits sum.splits)

lemma cons_ok_error: "cons_ok c r = Inl e \<Longrightarrow> r = Inl e"
  by (simp add: cons_ok_def split: sum.splits)

lemma app_ok_error: "app_ok p r = Inl e \<Longrightarrow> r = Inl e"
  by (simp add: app_ok_def split: sum.splits)

lemma Decode_error: "Decode s = Inl e \<Longrightarrow> e = URIError"
proof (induction s rule: Decode.induct)
  case 1
  then show ?case by simp
next
  case (2 c cs)
  show ?case
  proof (cases "c \<noteq> 0x25")
    case True
    with "2.prems" have "Decode cs = Inl e" by (simp add: cons_ok_error)
    with "2.IH"(1)[OF True] show ?thesis .
  next
    case False
    show ?thesis
    proof (rule ccontr)
      assume ne: "e \<noteq> URIError"
      with "2.prems" False obtain h l rest b where
        s: "cs = h # l # rest" "parseHexOctet h l = Some b"
        by (auto split: list.splits option.splits)
      show False
      proof (cases "leadingOnes b = 0")
        case True
        with "2.prems" False s have "Decode rest = Inl e" by (simp add: cons_ok_error)
        with "2.IH"(2)[OF False s(1) refl s(2) True] ne show False by simp
      next
        case n0: False
        with "2.prems" False s ne obtain bs cp where
          t: "\<not> (leadingOnes b = 1 \<or> 4 < leadingOnes b)"
            "continuationOctets (leadingOnes b - 1) rest = Some bs"
            "utf8CodePoint (b # bs) = Some cp"
            "app_ok (utf16 cp) (Decode (drop (3 * (leadingOnes b - 1)) rest)) = Inl e"
          by (auto split: option.splits if_splits)
        from t(4) have "Decode (drop (3 * (leadingOnes b - 1)) rest) = Inl e"
          by (rule app_ok_error)
        with "2.IH"(3)[OF False s(1) refl s(2) n0 t(1,2,3)] ne show False by simp
      qed
    qed
  qed
qed

lemma decodeValue_error: "decodeValue s = Inl e \<Longrightarrow> e = URIError"
  unfolding decodeValue_def decodeURIComponent_def by (rule Decode_error)


lemma cookie_read:
  "cookie b name Undefined opts =
     (case cookieEntry b name of
        None \<Rightarrow> Inr \<lparr>returned = None, assigned = None\<rparr>
      | Some raw \<Rightarrow>
          (case decodeValue raw of
             Inl e \<Rightarrow> Inl e
           | Inr v \<Rightarrow>
               if scrambleSet opts then Inl TypeError
               else Inr \<lparr>returned = Some v, assigned = None\<rparr>))"
  by (simp add: cookie_def cookieBody_read unscrambleValue_def Let_def
      split: option.splits sum.splits)

lemma scrambleSet_noOptions: "\<not> scrambleSet noOptions"
  by (simp add: scrambleSet_def noOptions_def)

lemma cookieBody_read_unscrambled:
  "\<not> scrambleSet opts \<Longrightarrow>
   cookieBody self b name Undefined opts = cookie b name Undefined opts"
  by (simp add: cookie_read cookieBody_read split: option.splits sum.splits)

lemma exists_cookie_entry:
  "exists_cookie b name =
     (case cookieEntry b name of
        None \<Rightarrow> Inr False
      | Some raw \<Rightarrow> (case decodeValue raw of Inl e \<Rightarrow> Inl URIError | Inr v \<Rightarrow> Inr True))"
  using decodeValue_error
  by (auto simp: exists_cookie_def cookie_read scrambleSet_noOptions
      split: option.splits sum.splits)

section \<open>Scrambling and unscrambling, by the value of self\<close>

lemma getProperty_not_own:
  "key \<notin> dom m \<Longrightarrow>
   getProperty m key = (if key \<in> set objectPrototypeKeys then Inherited else Missing)"
  by (auto simp: getProperty_def split: option.splits)

lemma unscrambleValue_unknown:
  assumes "prefixOrRot13 v \<notin> dom (scramblers obj)"
  shows "unscrambleValue (Some obj) v =
     Inl (if prefixOrRot13 v \<in> set objectPrototypeKeys then TypeError
          else Thrown (js ''Cannot unscramble cookie with prefix '' @ prefixOrRot13 v))"
  using getProperty_not_own[OF assms]
  by (simp add: unscrambleValue_def Let_def prefixOrRot13_def[symmetric])

lemma scramblePrefixGet_empty: "scramblePrefixGet v = [] \<Longrightarrow> scramblePrefixRemove v = v"
proof -
  assume e: "scramblePrefixGet v = []"
  have "prefixMatch v = None"
  proof (cases "prefixMatch v")
    case (Some a)
    obtain t r where a: "a = (t, r)" by (cases a)
    with Some have "prefixMatch v = Some (t, r)" by simp
    moreover from this have "t \<noteq> []" unfolding prefixMatch_iff by blast
    ultimately show ?thesis using e by (simp add: scramblePrefixGet_def)
  qed simp
  then show ?thesis by (simp add: scramblePrefixRemove_def)
qed

lemma unscrambleValue_untagged:
  assumes "scramblePrefixGet v = []" "scramblers obj (js ''rot13'') = Some s"
  shows "unscrambleValue (Some obj) v = decode s (Str v)"
  using assms scramblePrefixGet_empty[OF assms(1)]
  by (simp add: unscrambleValue_def getProperty_def)

lemma cookie_write_scrambled:
  "scrambleSet opts \<Longrightarrow> cookie b name (Str v) opts = Inl TypeError"
  by (simp add: cookie_def cookieBody_def cookieWrite_def scrambleValue_def)

lemma scrambleValue_default:
  assumes "getProperty (scramblers obj) (scrambleKey opts) = Missing"
    and "scramblers obj (scramblerDefault obj) = Some s"
  shows "scrambleValue (Some obj) opts v =
     (case encode s (Str v) of
        Inl e \<Rightarrow> Inl e
      | Inr v' \<Rightarrow> Inr (scramblePrefixAdd (scramblerDefault obj) v'))"
  using assms by (simp add: scrambleValue_def truthy_def getProperty_def)

lemma untagged_read_with_self:
  assumes "scrambleSet opts" "cookieEntry b name = Some raw" "decodeValue raw = Inr v"
    and "scramblePrefixGet v = []"
  shows "cookieBody (Some cookieObject_initial) b name Undefined opts
     = Inr \<lparr>returned = Some (rot13 (Str v)), assigned = None\<rparr>"
proof -
  have k: "js ''rot13'' \<noteq> js ''rot13n''" by (simp add: js_def)
  have "scramblers cookieObject_initial (js ''rot13'') = Some scrambler_rot13"
    using k by (simp add: cookieObject_initial_def)
  from unscrambleValue_untagged[OF assms(4) this]
  have "unscrambleValue (Some cookieObject_initial) v = Inr (rot13 (Str v))"
    by (simp add: scrambler_rot13_def)
  then show ?thesis
    unfolding cookieBody_read using assms(1,2,3) by simp
qed

lemma write_with_self:
  assumes "scrambleSet opts"
    and "getProperty (scramblers cookieObject_initial) (scrambleKey opts) = Missing"
  shows "scrambleValue (Some cookieObject_initial) opts v
     = Inr (scramblePrefixAdd (js ''rot13n'') (map rot5char (map rot13char v)))"
proof -
  have d: "scramblerDefault cookieObject_initial = js ''rot13n''"
    "scramblers cookieObject_initial (js ''rot13n'') = Some scrambler_rot13n"
    by (simp_all add: cookieObject_initial_def)
  have "scramblers cookieObject_initial (scramblerDefault cookieObject_initial) = Some scrambler_rot13n"
    unfolding d(1) by (rule d(2))
  from scrambleValue_default[OF assms(2) this, of v]
  show ?thesis
    unfolding d(1) by (simp add: scrambler_rot13n_def rot13_Str rot5_Str)
qed

lemma write_inherited_name:
  "scrambleValue (Some cookieObject_initial)
     (noOptions\<lparr>scramble := Some (SName (js ''constructor''))\<rparr>) v = Inl TypeError"
proof -
  have k: "scrambleKey (noOptions\<lparr>scramble := Some (SName (js ''constructor''))\<rparr>) = js ''constructor''"
    by (simp add: scrambleKey_def)
  have n: "scramblers cookieObject_initial (js ''constructor'') = None"
    by code_simp
  have m: "js ''constructor'' \<in> set objectPrototypeKeys"
    by code_simp
  have g: "getProperty (scramblers cookieObject_initial) (js ''constructor'') = Inherited"
    by (simp add: getProperty_def n m)
  show ?thesis
    unfolding scrambleValue_def k by (simp add: g truthy_def)
qed

section \<open>The properties\<close>

text \<open>
  C1. For every string, each of the two built-in scramblers has one function as both
  \<open>encode\<close> and \<open>decode\<close>, and decoding the encoded string gives the string back:
  \<open>rot13\<close> rotates the letters, \<open>rot13n\<close> rotates the letters and then the digits.
\<close>

theorem builtin_scramblers_round_trip:
  "scramblers cookieObject_initial (js ''rot13'') = Some scrambler_rot13
   \<and> scramblers cookieObject_initial (js ''rot13n'') = Some scrambler_rot13n
   \<and> decode scrambler_rot13 = encode scrambler_rot13
   \<and> decode scrambler_rot13n = encode scrambler_rot13n
   \<and> encode scrambler_rot13 (Str x) = Inr (map rot13char x)
   \<and> encode scrambler_rot13n (Str x) = Inr (map rot5char (map rot13char x))
   \<and> andThen (encode scrambler_rot13 (Str x)) (\<lambda>y. decode scrambler_rot13 (Str y)) = Inr x
   \<and> andThen (encode scrambler_rot13n (Str x)) (\<lambda>y. decode scrambler_rot13n (Str y)) = Inr x"
proof -
  have k: "js ''rot13'' \<noteq> js ''rot13n''" by (simp add: js_def)
  have 1: "scramblers cookieObject_initial (js ''rot13'') = Some scrambler_rot13"
    using k by (simp add: cookieObject_initial_def)
  have 2: "scramblers cookieObject_initial (js ''rot13n'') = Some scrambler_rot13n"
    by (simp add: cookieObject_initial_def)
  have 3: "decode scrambler_rot13 = encode scrambler_rot13"
    "decode scrambler_rot13n = encode scrambler_rot13n"
    by (simp_all add: scrambler_rot13_def scrambler_rot13n_def)
  have 4: "encode scrambler_rot13 (Str x) = Inr (map rot13char x)"
    by (simp add: scrambler_rot13_def rot13_Str)
  have 5: "encode scrambler_rot13n (Str x) = Inr (map rot5char (map rot13char x))"
    by (simp add: scrambler_rot13n_def rot13_Str rot5_Str)
  have 6: "andThen (encode scrambler_rot13 (Str x)) (\<lambda>y. decode scrambler_rot13 (Str y)) = Inr x"
    using rot13_rot13[of x] by (simp add: andThen_def scrambler_rot13_def)
  have 7: "andThen (encode scrambler_rot13n (Str x)) (\<lambda>y. decode scrambler_rot13n (Str y)) = Inr x"
    using rot13n_rot13n[of x] by (simp add: andThen_def scrambler_rot13n_def rot5_Str)
  from 1 2 3 4 5 6 7 show ?thesis by blast
qed

text \<open>
  C2. A read with the scramble option that finds a value whose prefix (or \<open>rot13\<close>,
  when it has none) is no property of \<open>scramblers\<close> throws. As the function stands
  the error is the TypeError of reading \<open>scramblers\<close> of the undefined \<open>self\<close>; with
  \<open>self\<close> the function object it is the string of line 426, or a TypeError when the
  name is a member of \<open>Object.prototype\<close>. The scrambled text is not returned.
\<close>

theorem unknown_scrambler_read_fails:
  assumes "scrambleSet opts"
    and "cookieEntry b name = Some raw"
    and "decodeValue raw = Inr v"
    and "prefixOrRot13 v \<notin> dom (scramblers obj)"
  shows "cookie b name Undefined opts = Inl TypeError
    \<and> get b name opts = Inl TypeError
    \<and> cookieBody (Some obj) b name Undefined opts =
        Inl (if prefixOrRot13 v \<in> set objectPrototypeKeys then TypeError
             else Thrown (js ''Cannot unscramble cookie with prefix '' @ prefixOrRot13 v))"
proof -
  have c: "cookie b name Undefined opts = Inl TypeError"
    using assms(1,2,3) by (simp add: cookie_read)
  have g: "get b name opts = Inl TypeError"
    by (simp add: get_def c)
  have s: "cookieBody (Some obj) b name Undefined opts =
        Inl (if prefixOrRot13 v \<in> set objectPrototypeKeys then TypeError
             else Thrown (js ''Cannot unscramble cookie with prefix '' @ prefixOrRot13 v))"
    unfolding cookieBody_read using assms(1,2,3) unscrambleValue_unknown[OF assms(4)]
    by simp
  from c g s show ?thesis by (intro conjI)
qed

theorem unknown_scrambler_read_fails_witness:
  "scrambleSet (noOptions\<lparr>scramble := Some (SBool True)\<rparr>)
   \<and> cookieEntry \<lparr>document_cookie = js ''a=%5Bzzz%5Dabc'', now = 0, toUTCString = (\<lambda>t. [])\<rparr>
       (js ''a'') = Some (js ''%5Bzzz%5Dabc'')
   \<and> decodeValue (js ''%5Bzzz%5Dabc'') = Inr (js ''[zzz]abc'')
   \<and> prefixOrRot13 (js ''[zzz]abc'') \<notin> dom (scramblers cookieObject_initial)
   \<and> get \<lparr>document_cookie = js ''a=%5Bzzz%5Dabc'', now = 0, toUTCString = (\<lambda>t. [])\<rparr>
       (js ''a'') (noOptions\<lparr>scramble := Some (SBool True)\<rparr>) = Inl TypeError
   \<and> cookieBody (Some cookieObject_initial)
       \<lparr>document_cookie = js ''a=%5Bzzz%5Dabc'', now = 0, toUTCString = (\<lambda>t. [])\<rparr>
       (js ''a'') Undefined (noOptions\<lparr>scramble := Some (SBool True)\<rparr>)
       = Inl (Thrown (js ''Cannot unscramble cookie with prefix zzz''))"
proof -
  let ?b = "\<lparr>document_cookie = js ''a=%5Bzzz%5Dabc'', now = 0, toUTCString = (\<lambda>t. [])\<rparr>"
  let ?o = "noOptions\<lparr>scramble := Some (SBool True)\<rparr>"
  have 1: "scrambleSet ?o" by code_simp
  have 2: "cookieEntry ?b (js ''a'') = Some (js ''%5Bzzz%5Dabc'')" by code_simp
  have 3: "decodeValue (js ''%5Bzzz%5Dabc'') = Inr (js ''[zzz]abc'')" by code_simp
  have p: "prefixOrRot13 (js ''[zzz]abc'') = js ''zzz''" by code_simp
  have n: "scramblers cookieObject_initial (js ''zzz'') = None" by code_simp
  have 4: "prefixOrRot13 (js ''[zzz]abc'') \<notin> dom (scramblers cookieObject_initial)"
    unfolding p using n by (simp add: domIff)
  have k: "js ''zzz'' \<notin> set objectPrototypeKeys" by code_simp
  have m: "js ''Cannot unscramble cookie with prefix '' @ js ''zzz''
      = js ''Cannot unscramble cookie with prefix zzz''" by (simp add: js_def)
  from unknown_scrambler_read_fails[OF 1 2 3 4]
  have "get ?b (js ''a'') ?o = Inl TypeError"
    "cookieBody (Some cookieObject_initial) ?b (js ''a'') Undefined ?o
       = Inl (Thrown (js ''Cannot unscramble cookie with prefix zzz''))"
    unfolding p using k m by simp_all
  with 1 2 3 4 show ?thesis by (intro conjI)
qed

text \<open>
  C3, as the code has it. A string with an unpaired surrogate is not encoded at all:
  \<open>encodeValue\<close> throws the URIError of \<open>encodeURIComponent\<close>.
\<close>

theorem transport_round_trip_counterexample:
  "\<not> channelForbidden 0xD800
   \<and> andThen (encodeValue [0xD800]) decodeValue \<noteq> Inr [0xD800]
   \<and> encodeValue [0xD800] = Inl URIError"
  by code_simp

text \<open>
  C3, amended. For every string without an unpaired surrogate, whether or not it has
  separator characters, \<open>decodeValue (encodeValue x) = x\<close>; for every other string
  \<open>encodeValue\<close> throws a URIError.
\<close>

theorem transport_round_trip:
  "(wellFormed x \<longrightarrow> andThen (encodeValue x) decodeValue = Inr x)
   \<and> (\<not> wellFormed x \<longrightarrow> encodeValue x = Inl URIError)"
proof (intro conjI impI)
  assume "wellFormed x"
  from encodeValue_wellFormed[OF this] show "andThen (encodeValue x) decodeValue = Inr x"
    by (auto simp: andThen_def)
next
  assume "\<not> wellFormed x"
  then show "encodeValue x = Inl URIError" by (rule encodeValue_not_wellFormed)
qed

theorem transport_round_trip_witness:
  "wellFormed (js ''a=b; {c:[1,2]}'')
   \<and> andThen (encodeValue (js ''a=b; {c:[1,2]}'')) decodeValue = Inr (js ''a=b; {c:[1,2]}'')
   \<and> \<not> wellFormed [0x61, 0xDC00]
   \<and> encodeValue [0x61, 0xDC00] = Inl URIError"
proof -
  have 1: "wellFormed (js ''a=b; {c:[1,2]}'')" by code_simp
  have 2: "\<not> wellFormed [0x61, 0xDC00]" by code_simp
  show ?thesis
    using 1 2 transport_round_trip[of "js ''a=b; {c:[1,2]}''"] transport_round_trip[of "[0x61, 0xDC00]"]
    by blast
qed

text \<open>
  C4, as the code has it. A name with a line terminator is not found again, since the
  \<open>.\<close> of the expression does not match one; and a \<open>]\<close> directly after the opening
  bracket is taken as the first character of the prefix.
\<close>

theorem prefix_round_trip_counterexample:
  "[0x0A] \<noteq> [] \<and> 0x5D \<notin> set [0x0A :: cu]
   \<and> scramblePrefixGet (scramblePrefixAdd [0x0A] (js ''hello'')) \<noteq> [0x0A]
   \<and> scramblePrefixRemove (scramblePrefixAdd [0x0A] (js ''hello'')) \<noteq> js ''hello''
   \<and> scramblePrefixGet (js ''[]a]b'') = js '']a''"
  by code_simp

text \<open>
  C4, amended. For every non-empty name without \<open>]\<close> and without line terminator
  (LF, CR, U+2028, U+2029) and every payload, \<open>scramblePrefixGet\<close> of the tagged payload
  is the name and \<open>scramblePrefixRemove\<close> of it is the payload. A non-empty prefix
  is what stands between the opening bracket at position 0 and the first \<open>]\<close> after
  at least one character, with no line terminator in it, and \<open>scramblePrefixRemove\<close>
  gives what follows that \<open>]\<close>. A value with no such bracketed start has the empty
  prefix and is left unchanged.
\<close>

theorem prefix_round_trip:
  "(name \<noteq> [] \<and> 0x5D \<notin> set name \<and> \<not> list_ex isLineTerminator name \<longrightarrow>
      scramblePrefixGet (scramblePrefixAdd name p) = name
      \<and> scramblePrefixRemove (scramblePrefixAdd name p) = p)
   \<and> (scramblePrefixGet s \<noteq> [] \<longrightarrow>
        s = 0x5B # scramblePrefixGet s @ 0x5D # scramblePrefixRemove s
        \<and> 0x5D \<notin> set (tl (scramblePrefixGet s))
        \<and> \<not> list_ex isLineTerminator (scramblePrefixGet s))
   \<and> ((\<nexists>c t r. s = 0x5B # c # t @ 0x5D # r \<and> \<not> list_ex isLineTerminator (c # t)) \<longrightarrow>
        scramblePrefixGet s = [] \<and> scramblePrefixRemove s = s)"
proof (intro conjI impI)
  assume a: "name \<noteq> [] \<and> 0x5D \<notin> set name \<and> \<not> list_ex isLineTerminator name"
  then have m: "prefixMatch (scramblePrefixAdd name p) = Some (name, p)"
    using prefixMatch_Add by blast
  show "scramblePrefixGet (scramblePrefixAdd name p) = name"
    by (simp add: scramblePrefixGet_def m)
  show "scramblePrefixRemove (scramblePrefixAdd name p) = p"
    by (simp add: scramblePrefixRemove_def m)
next
  assume g: "scramblePrefixGet s \<noteq> []"
  then obtain t r where m: "prefixMatch s = Some (t, r)"
    by (auto simp: scramblePrefixGet_def split: option.splits)
  then have e: "scramblePrefixGet s = t" "scramblePrefixRemove s = r"
    by (simp_all add: scramblePrefixGet_def scramblePrefixRemove_def)
  from m obtain c t' where t: "t = c # t'" "s = 0x5B # c # t' @ 0x5D # r" "0x5D \<notin> set t'"
    "\<not> list_ex isLineTerminator (c # t')"
    unfolding prefixMatch_iff by blast
  show "s = 0x5B # scramblePrefixGet s @ 0x5D # scramblePrefixRemove s"
    unfolding e using t by simp
  show "0x5D \<notin> set (tl (scramblePrefixGet s))"
    unfolding e using t by simp
  show "\<not> list_ex isLineTerminator (scramblePrefixGet s)"
    unfolding e using t by simp
next
  assume "\<nexists>c t r. s = 0x5B # c # t @ 0x5D # r \<and> \<not> list_ex isLineTerminator (c # t)"
  then have m: "prefixMatch s = None" by (rule prefixMatch_None)
  show "scramblePrefixGet s = []" by (simp add: scramblePrefixGet_def m)
  show "scramblePrefixRemove s = s" by (simp add: scramblePrefixRemove_def m)
qed



theorem prefix_round_trip_witness:
  "js ''rot13'' \<noteq> [] \<and> 0x5D \<notin> set (js ''rot13'') \<and> \<not> list_ex isLineTerminator (js ''rot13'')
   \<and> scramblePrefixGet (scramblePrefixAdd (js ''rot13'') (js ''hello'')) = js ''rot13''
   \<and> scramblePrefixRemove (scramblePrefixAdd (js ''rot13'') (js ''hello'')) = js ''hello''
   \<and> scramblePrefixGet (js ''[a]b]c'') \<noteq> []
   \<and> js ''[a]b]c'' = 0x5B # scramblePrefixGet (js ''[a]b]c'') @ 0x5D # scramblePrefixRemove (js ''[a]b]c'')
   \<and> (\<nexists>c t r. js ''hello'' = 0x5B # c # t @ 0x5D # r \<and> \<not> list_ex isLineTerminator (c # t))
   \<and> scramblePrefixGet (js ''hello'') = [] \<and> scramblePrefixRemove (js ''hello'') = js ''hello''"
proof -
  have 1: "js ''rot13'' \<noteq> [] \<and> 0x5D \<notin> set (js ''rot13'') \<and> \<not> list_ex isLineTerminator (js ''rot13'')"
    by code_simp
  have 2: "scramblePrefixGet (js ''[a]b]c'') \<noteq> []" by code_simp
  have h: "js ''hello'' = 0x68 # js ''ello''" by (simp add: js_def)
  have 3: "\<nexists>c t r. js ''hello'' = 0x5B # c # t @ 0x5D # r \<and> \<not> list_ex isLineTerminator (c # t)"
    unfolding h by simp
  from 1 prefix_round_trip[of "js ''rot13''" "js ''hello''" "js ''[a]b]c''"]
  have a: "scramblePrefixGet (scramblePrefixAdd (js ''rot13'') (js ''hello'')) = js ''rot13''"
    "scramblePrefixRemove (scramblePrefixAdd (js ''rot13'') (js ''hello'')) = js ''hello''"
    by blast+
  from 2 prefix_round_trip[of "js ''rot13''" "js ''hello''" "js ''[a]b]c''"]
  have b: "js ''[a]b]c'' = 0x5B # scramblePrefixGet (js ''[a]b]c'') @ 0x5D # scramblePrefixRemove (js ''[a]b]c'')"
    by blast
  from 3 prefix_round_trip[of "js ''rot13''" "js ''hello''" "js ''hello''"]
  have c: "scramblePrefixGet (js ''hello'') = []" "scramblePrefixRemove (js ''hello'') = js ''hello''"
    by blast+
  from 1 2 3 a b c show ?thesis by (intro conjI) blast+
qed

text \<open>
  C5, as the code has it. \<open>rot5\<close> has no guard like the \<open>str || ''\<close> of \<open>rot13\<close>:
  on \<open>null\<close> or an absent argument it throws a TypeError.
\<close>

theorem rotation_null_counterexample:
  "rot5 Null = Inl TypeError \<and> rot5 Undefined = Inl TypeError \<and> rot5 Null \<noteq> Inr []"
  by code_simp

text \<open>
  C5, amended. \<open>rot13\<close> takes \<open>null\<close> or an absent argument as the empty string and
  returns the empty string; \<open>rot5\<close> is a function of strings, and where the code calls
  it, in \<open>rot13n\<close>, it gets the result of \<open>rot13\<close>, so that \<open>rot13n\<close> returns the
  empty string for \<open>null\<close> or an absent argument too. On every string both return a
  string of the same length: \<open>rot13\<close> puts an ASCII letter where an ASCII letter was and
  \<open>rot5\<close> an ASCII digit where an ASCII digit was, and every other code unit stays as
  it is.
\<close>

theorem rotation_total:
  "rot13 Undefined = [] \<and> rot13 Null = []
   \<and> encode scrambler_rot13n Null = Inr [] \<and> encode scrambler_rot13n Undefined = Inr []
   \<and> length (rot13 (Str s)) = length s
   \<and> (\<forall>i<length s. if isAsciiLetter (s ! i) then isAsciiLetter (rot13 (Str s) ! i)
                      else rot13 (Str s) ! i = s ! i)
   \<and> (\<exists>y. rot5 (Str s) = Inr y \<and> length y = length s
          \<and> (\<forall>i<length s. if isDigit (s ! i) then isDigit (y ! i) else y ! i = s ! i))"
proof -
  have 1: "rot13 Undefined = []" "rot13 Null = []"
    by (simp_all add: rot13_def orEmpty_def)
  have 2: "encode scrambler_rot13n Null = Inr []" "encode scrambler_rot13n Undefined = Inr []"
    by (simp_all add: scrambler_rot13n_def 1 rot5_def)
  have 3: "length (rot13 (Str s)) = length s"
    by (simp add: rot13_Str)
  have 4: "\<forall>i<length s. if isAsciiLetter (s ! i) then isAsciiLetter (rot13 (Str s) ! i)
                      else rot13 (Str s) ! i = s ! i"
    by (simp add: rot13_Str rot13char_def rot13replace_letter)
  have 5: "length (map rot5char s) = length s
       \<and> (\<forall>i<length s. if isDigit (s ! i) then isDigit (map rot5char s ! i)
                          else map rot5char s ! i = s ! i)"
    by (simp add: rot5char_def rot5replace_digit)
  from 5 rot5_Str[of s]
  have 6: "\<exists>y. rot5 (Str s) = Inr y \<and> length y = length s
          \<and> (\<forall>i<length s. if isDigit (s ! i) then isDigit (y ! i) else y ! i = s ! i)"
    by blast
  from 1 2 3 4 6 show ?thesis by (intro conjI)
qed

theorem rotation_total_witness:
  "(0::nat) < length (js ''S1'') \<and> isAsciiLetter (js ''S1'' ! 0)
   \<and> isAsciiLetter (rot13 (Str (js ''S1'')) ! 0)
   \<and> (1::nat) < length (js ''S1'') \<and> \<not> isAsciiLetter (js ''S1'' ! 1)
   \<and> rot13 (Str (js ''S1'')) ! 1 = js ''S1'' ! 1
   \<and> rot13 (Str (js ''S1'')) = js ''F1''
   \<and> rot5 (Str (js ''S1'')) = Inr (js ''S6'')
   \<and> isDigit (js ''S1'' ! 1) \<and> isDigit (js ''S6'' ! 1)
   \<and> \<not> isDigit (js ''S1'' ! 0) \<and> js ''S6'' ! 0 = js ''S1'' ! 0"
proof -
  have l: "(0::nat) < length (js ''S1'')" "(1::nat) < length (js ''S1'')"
    by (simp_all add: js_def)
  have k: "isAsciiLetter (js ''S1'' ! 0)" "\<not> isAsciiLetter (js ''S1'' ! 1)"
    "isDigit (js ''S1'' ! 1)" "\<not> isDigit (js ''S1'' ! 0)"
    by (simp_all add: js_def isAsciiLetter_def isDigit_def)
  have e: "rot13 (Str (js ''S1'')) = js ''F1''" "rot5 (Str (js ''S1'')) = Inr (js ''S6'')"
    by code_simp+
  note t = rotation_total[of "js ''S1''"]
  from t l(1) k(1) have a: "isAsciiLetter (rot13 (Str (js ''S1'')) ! 0)" by presburger
  from t l(2) k(2) have b: "rot13 (Str (js ''S1'')) ! 1 = js ''S1'' ! 1" by presburger
  from t obtain y where y: "rot5 (Str (js ''S1'')) = Inr y"
    "\<forall>i<length (js ''S1''). if isDigit (js ''S1'' ! i) then isDigit (y ! i) else y ! i = js ''S1'' ! i"
    by blast
  from y(1) e(2) have y': "y = js ''S6''" by simp
  from y(2) l(2) k(3) have "isDigit (y ! 1)" by presburger
  moreover from y(2) l(1) k(4) have "y ! 0 = js ''S1'' ! 0" by presburger
  ultimately have c: "isDigit (js ''S6'' ! 1)" "js ''S6'' ! 0 = js ''S1'' ! 0"
    unfolding y' by blast+
  from l k e a b c show ?thesis by (intro conjI)
qed

text \<open>
  C6, at the failing input. A write with the scramble option, \<open>true\<close> or a name that
  is no scrambler, throws a TypeError: \<open>self\<close> is undefined when line 314 reads
  \<open>self.scramblers\<close>. With \<open>self\<close> the function object the same call stores the
  \<open>rot13n\<close> encoding under the prefix \<open>[rot13n]\<close>, as documented.
\<close>

theorem write_default_scrambler_evaluation:
  "set_cookie b (js ''a'') (Str (js ''Secret123'')) (noOptions\<lparr>scramble := Some (SBool True)\<rparr>)
     = Inl TypeError
   \<and> set_cookie b (js ''a'') (Str (js ''Secret123''))
       (noOptions\<lparr>scramble := Some (SName (js ''nope''))\<rparr>) = Inl TypeError
   \<and> cookieBody (Some cookieObject_initial) b (js ''a'') (Str (js ''Secret123''))
       (noOptions\<lparr>scramble := Some (SName (js ''nope''))\<rparr>)
     = Inr \<lparr>returned = Some (js ''[rot13n]Frperg678''),
            assigned = Some (js ''a=[rot13n]Frperg678; path=/'')\<rparr>"
proof -
  have s: "scrambleSet (noOptions\<lparr>scramble := Some (SBool True)\<rparr>)"
    "scrambleSet (noOptions\<lparr>scramble := Some (SName (js ''nope''))\<rparr>)"
    by code_simp+
  have 1: "set_cookie b (js ''a'') (Str (js ''Secret123'')) (noOptions\<lparr>scramble := Some (SBool True)\<rparr>)
     = Inl TypeError"
    unfolding set_cookie_def by (rule cookie_write_scrambled[OF s(1)])
  have 2: "set_cookie b (js ''a'') (Str (js ''Secret123''))
       (noOptions\<lparr>scramble := Some (SName (js ''nope''))\<rparr>) = Inl TypeError"
    unfolding set_cookie_def by (rule cookie_write_scrambled[OF s(2)])
  have v: "scrambleValue (Some cookieObject_initial)
       (noOptions\<lparr>scramble := Some (SName (js ''nope''))\<rparr>) (js ''Secret123'')
     = Inr (js ''[rot13n]Frperg678'')" by code_simp
  have e: "encodeValue (js ''[rot13n]Frperg678'') = Inr (js ''[rot13n]Frperg678'')" by code_simp
  have a: "expiresAttribute b (noOptions\<lparr>scramble := Some (SName (js ''nope''))\<rparr>) = []"
    "pathAttribute (noOptions\<lparr>scramble := Some (SName (js ''nope''))\<rparr>) = js ''; path=/''"
    "domainAttribute (noOptions\<lparr>scramble := Some (SName (js ''nope''))\<rparr>) = []"
    "secureAttribute (noOptions\<lparr>scramble := Some (SName (js ''nope''))\<rparr>) = []"
    by (simp_all add: expiresAttribute_def pathAttribute_def domainAttribute_def
        secureAttribute_def noOptions_def)
  have j: "js ''a'' @ js ''='' @ js ''[rot13n]Frperg678'' @ js ''; path=/''
      = js ''a=[rot13n]Frperg678; path=/''" by (simp add: js_def)
  have 3: "cookieBody (Some cookieObject_initial) b (js ''a'') (Str (js ''Secret123''))
       (noOptions\<lparr>scramble := Some (SName (js ''nope''))\<rparr>)
     = Inr \<lparr>returned = Some (js ''[rot13n]Frperg678''),
            assigned = Some (js ''a=[rot13n]Frperg678; path=/'')\<rparr>"
    using s(2) v e a j by (simp add: cookieBody_def cookieWrite_def)
  from 1 2 3 show ?thesis by (intro conjI)
qed

text \<open>
  C7, at the failing input. A read with the scramble option of a value without prefix
  throws a TypeError: \<open>self\<close> is undefined when line 425 reads \<open>self.scramblers\<close>.
  With \<open>self\<close> the function object the same call decodes the whole value with
  \<open>rot13\<close>, as documented.
\<close>

theorem untagged_read_evaluation:
  "get \<lparr>document_cookie = js ''a=fhcre'', now = 0, toUTCString = (\<lambda>t. [])\<rparr> (js ''a'')
     (noOptions\<lparr>scramble := Some (SBool True)\<rparr>) = Inl TypeError
   \<and> scramblePrefixGet (js ''fhcre'') = []
   \<and> cookieBody (Some cookieObject_initial)
       \<lparr>document_cookie = js ''a=fhcre'', now = 0, toUTCString = (\<lambda>t. [])\<rparr> (js ''a'')
       Undefined (noOptions\<lparr>scramble := Some (SBool True)\<rparr>)
     = Inr \<lparr>returned = Some (js ''super''), assigned = None\<rparr>"
  by code_simp

text \<open>
  C8. An encoded value has no comma, semicolon, equals sign or white space: its
  characters are the unreserved ones, the percent sign of an escape, and the five
  literals \<open>{ } : [ ]\<close>, the only ones that line 138 restores. A value is returned for
  every string without an unpaired surrogate.
\<close>

theorem encodeValue_channel_safe:
  "(wellFormed x \<longrightarrow> (\<exists>y. encodeValue x = Inr y))
   \<and> (encodeValue x = Inr y \<longrightarrow> (\<forall>c\<in>set y. transportAlphabet c \<and> \<not> channelForbidden c))"
proof (intro conjI impI)
  assume "wellFormed x"
  from encodeValue_wellFormed[OF this] show "\<exists>y. encodeValue x = Inr y" by blast
next
  assume e: "encodeValue x = Inr y"
  have "wellFormed x"
  proof (rule ccontr)
    assume "\<not> wellFormed x"
    from encodeValue_not_wellFormed[OF this] e show False by simp
  qed
  from encodeValue_wellFormed[OF this] e have "\<forall>c\<in>set y. transportAlphabet c" by auto
  then show "\<forall>c\<in>set y. transportAlphabet c \<and> \<not> channelForbidden c"
    using transportAlphabet_allowed by blast
qed

theorem encodeValue_channel_safe_witness:
  "wellFormed (js ''a=b, c; {d:[1]}'')
   \<and> encodeValue (js ''a=b, c; {d:[1]}'') = Inr (js ''a%3Db%2C%20c%3B%20{d:[1]}'')
   \<and> list_all (\<lambda>c. transportAlphabet c \<and> \<not> channelForbidden c)
         (js ''a%3Db%2C%20c%3B%20{d:[1]}'')"
proof -
  have 1: "wellFormed (js ''a=b, c; {d:[1]}'')" by code_simp
  have 2: "encodeValue (js ''a=b, c; {d:[1]}'') = Inr (js ''a%3Db%2C%20c%3B%20{d:[1]}'')"
    by code_simp
  show ?thesis
    using 1 2 encodeValue_channel_safe[of "js ''a=b, c; {d:[1]}''" "js ''a%3Db%2C%20c%3B%20{d:[1]}''"]
    unfolding list_all_iff by blast
qed

text \<open>
  C9. When no entry of \<open>document.cookie\<close> has the name, the read returns \<open>null\<close>
  without an error, whatever the options: \<open>get\<close> returns the empty string,
  \<open>getJson\<close> the empty object and \<open>exists\<close> false. \<open>getJson\<close> returns the empty
  object too when the value that was read does not parse.
\<close>

theorem missing_entry_sentinels:
  "(cookieEntry b name = None \<longrightarrow>
      cookie b name Undefined opts = Inr \<lparr>returned = None, assigned = None\<rparr>
      \<and> get b name opts = Inr []
      \<and> getJson parse b name opts = Inr EmptyObject
      \<and> exists_cookie b name = Inr False)
   \<and> (cookie b name Undefined opts = Inr r \<and> returned r = Some v \<and> parse v = None \<longrightarrow>
        getJson parse b name opts = Inr EmptyObject)"
proof (intro conjI impI)
  assume n: "cookieEntry b name = None"
  show c: "cookie b name Undefined opts = Inr \<lparr>returned = None, assigned = None\<rparr>"
    by (simp add: cookie_read n)
  show "get b name opts = Inr []" by (simp add: get_def c)
  show "getJson parse b name opts = Inr EmptyObject" by (simp add: getJson_def c)
  show "exists_cookie b name = Inr False" by (simp add: exists_cookie_entry n)
next
  assume "cookie b name Undefined opts = Inr r \<and> returned r = Some v \<and> parse v = None"
  then show "getJson parse b name opts = Inr EmptyObject" by (simp add: getJson_def)
qed

theorem missing_entry_sentinels_witness:
  "cookieEntry \<lparr>document_cookie = js ''x=1; y=2'', now = 0, toUTCString = (\<lambda>t. [])\<rparr> (js ''a'') = None
   \<and> get \<lparr>document_cookie = js ''x=1; y=2'', now = 0, toUTCString = (\<lambda>t. [])\<rparr> (js ''a'')
        (noOptions\<lparr>scramble := Some (SBool True)\<rparr>) = Inr []
   \<and> getJson (\<lambda>s. None :: unit option)
        \<lparr>document_cookie = js ''x=1; y=2'', now = 0, toUTCString = (\<lambda>t. [])\<rparr> (js ''a'')
        (noOptions\<lparr>scramble := Some (SBool True)\<rparr>) = Inr EmptyObject
   \<and> exists_cookie \<lparr>document_cookie = js ''x=1; y=2'', now = 0, toUTCString = (\<lambda>t. [])\<rparr> (js ''a'')
        = Inr False
   \<and> cookie \<lparr>document_cookie = js ''x=1; y={'', now = 0, toUTCString = (\<lambda>t. [])\<rparr> (js ''y'')
        Undefined noOptions = Inr \<lparr>returned = Some (js ''{''), assigned = None\<rparr>
   \<and> getJson (\<lambda>s. None :: unit option)
        \<lparr>document_cookie = js ''x=1; y={'', now = 0, toUTCString = (\<lambda>t. [])\<rparr> (js ''y'')
        noOptions = Inr EmptyObject"
proof -
  let ?b = "\<lparr>document_cookie = js ''x=1; y=2'', now = 0, toUTCString = (\<lambda>t. [])\<rparr>"
  let ?b' = "\<lparr>document_cookie = js ''x=1; y={'', now = 0, toUTCString = (\<lambda>t. [])\<rparr>"
  let ?p = "\<lambda>s::jsstring. None :: unit option"
  have 1: "cookieEntry ?b (js ''a'') = None" by code_simp
  have 2: "cookie ?b' (js ''y'') Undefined noOptions = Inr \<lparr>returned = Some (js ''{''), assigned = None\<rparr>"
    by code_simp
  from 1 missing_entry_sentinels[of ?b "js ''a''" "noOptions\<lparr>scramble := Some (SBool True)\<rparr>" ?p]
  have a: "get ?b (js ''a'') (noOptions\<lparr>scramble := Some (SBool True)\<rparr>) = Inr []"
    "getJson ?p ?b (js ''a'') (noOptions\<lparr>scramble := Some (SBool True)\<rparr>) = Inr EmptyObject"
    "exists_cookie ?b (js ''a'') = Inr False"
    by blast+
  from 2 missing_entry_sentinels[of ?b' "js ''y''" noOptions ?p
      "\<lparr>returned = Some (js ''{''), assigned = None\<rparr>" "js ''{''"]
  have b: "getJson ?p ?b' (js ''y'') noOptions = Inr EmptyObject"
    by simp
  from 1 2 a b show ?thesis by (intro conjI)
qed

text \<open>
  C10, as the code has it. \<open>exists\<close> decodes the value of the entry it finds, and
  \<open>decodeURIComponent\<close> throws a URIError on a malformed escape, such as a single
  percent sign.
\<close>

theorem exists_cookie_counterexample:
  "exists_cookie \<lparr>document_cookie = js ''a=%'', now = 0, toUTCString = (\<lambda>t. [])\<rparr> (js ''a'')
     = Inl URIError"
  by code_simp

text \<open>
  C10, amended. \<open>exists\<close> calls the function with no options, so nothing is
  unscrambled and neither the error of an unknown scrambler nor a TypeError is thrown,
  whatever \<open>self\<close> and the scramblers are. It returns false when no entry has the name,
  and true when the first entry of that name has a value that \<open>decodeURIComponent\<close>
  accepts, a value that starts with the prefix of an unknown scrambler included;
  otherwise it throws the URIError of \<open>decodeURIComponent\<close>.
\<close>

theorem exists_cookie_outcome:
  "exists_cookie b name =
     (case cookieEntry b name of
        None \<Rightarrow> Inr False
      | Some raw \<Rightarrow> (case decodeValue raw of Inl e \<Rightarrow> Inl URIError | Inr v \<Rightarrow> Inr True))
   \<and> cookieBody self b name Undefined noOptions = cookie b name Undefined noOptions"
  using exists_cookie_entry[of b name]
    cookieBody_read_unscrambled[OF scrambleSet_noOptions, of self b name]
  by simp

theorem exists_cookie_outcome_witness:
  "cookieEntry \<lparr>document_cookie = js ''x=1; a=%5Bzzz%5Dabc'', now = 0, toUTCString = (\<lambda>t. [])\<rparr>
      (js ''a'') = Some (js ''%5Bzzz%5Dabc'')
   \<and> decodeValue (js ''%5Bzzz%5Dabc'') = Inr (js ''[zzz]abc'')
   \<and> scramblers cookieObject_initial (scramblePrefixGet (js ''[zzz]abc'')) = None
   \<and> exists_cookie \<lparr>document_cookie = js ''x=1; a=%5Bzzz%5Dabc'', now = 0, toUTCString = (\<lambda>t. [])\<rparr>
      (js ''a'') = Inr True"
proof -
  let ?b = "\<lparr>document_cookie = js ''x=1; a=%5Bzzz%5Dabc'', now = 0, toUTCString = (\<lambda>t. [])\<rparr>"
  have 1: "cookieEntry ?b (js ''a'') = Some (js ''%5Bzzz%5Dabc'')" by code_simp
  have 2: "decodeValue (js ''%5Bzzz%5Dabc'') = Inr (js ''[zzz]abc'')" by code_simp
  have 3: "scramblers cookieObject_initial (scramblePrefixGet (js ''[zzz]abc'')) = None"
    by code_simp
  from 1 2 exists_cookie_outcome[of ?b "js ''a''" None]
  have "exists_cookie ?b (js ''a'') = Inr True" by simp
  with 1 2 3 show ?thesis by (intro conjI)
qed

end
